theory Spec2Isabelle
  imports Complex_Main "HOL-Library.Word"
begin

section \<open>JavaScript numbers\<close>

text \<open>
  The editor keeps its three parameters as JavaScript numbers and computes the whole
  geometry of the pipeline with them. A number is \<open>NaN\<close>, one of the two infinities, or
  a finite value, an IEEE double. A finite value is written as the rational it is; the sign
  of zero is not represented.
\<close>

datatype number = NaN | NegInf | Fin rat | PosInf

text \<open>
  Rounding to the nearest double, ties to the even mantissa. \<open>bits n\<close> is the length of
  \<open>n\<close> in binary, \<open>exponent x\<close> the \<open>e\<close> with \<open>2 ^ e \<le> x < 2 ^ (e + 1)\<close> for a positive
  \<open>x\<close>, and \<open>quantum x\<close> the distance between neighbouring doubles at \<open>x\<close>: the mantissa
  has 53 bits, and below \<open>2 ^ -1022\<close> the distance stays \<open>2 ^ -1074\<close>. A result of
  \<open>2 ^ 1024\<close> or more is an infinity.
\<close>

definition round_half_even :: "rat \<Rightarrow> int" where
  "round_half_even x =
     (let f = \<lfloor>x\<rfloor>; r = x - of_int f
      in if r < 1 / 2 then f else if 1 / 2 < r then f + 1 else if even f then f else f + 1)"

fun bits :: "nat \<Rightarrow> nat" where
  "bits n = (if n = 0 then 0 else Suc (bits (n div 2)))"

declare bits.simps [simp del]

definition exponent :: "rat \<Rightarrow> int" where
  "exponent x =
     (if 1 \<le> x then int (bits (nat \<lfloor>x\<rfloor>)) - 1 else - int (bits (nat \<lceil>1 / x\<rceil> - 1)))"

definition quantum :: "rat \<Rightarrow> rat" where
  "quantum x =
     (let p = max (exponent x) (- 1022) - 52
      in if 0 \<le> p then 2 ^ nat p else 1 / 2 ^ nat (- p))"

definition round_double :: "rat \<Rightarrow> number" where
  "round_double x =
     (if x = 0 then Fin 0
      else (let u = quantum \<bar>x\<bar>; y = of_int (round_half_even (\<bar>x\<bar> / u)) * u
            in if 2 ^ 1024 \<le> y then (if 0 < x then PosInf else NegInf)
               else Fin (if 0 < x then y else - y)))"

text \<open>The \<open>*\<close> of the language: the exact product, rounded.\<close>

fun js_mul :: "number \<Rightarrow> number \<Rightarrow> number" where
  "js_mul NaN b = NaN"
| "js_mul a NaN = NaN"
| "js_mul (Fin a) (Fin b) = round_double (a * b)"
| "js_mul (Fin a) PosInf = (if a = 0 then NaN else if 0 < a then PosInf else NegInf)"
| "js_mul (Fin a) NegInf = (if a = 0 then NaN else if 0 < a then NegInf else PosInf)"
| "js_mul PosInf (Fin b) = (if b = 0 then NaN else if 0 < b then PosInf else NegInf)"
| "js_mul NegInf (Fin b) = (if b = 0 then NaN else if 0 < b then NegInf else PosInf)"
| "js_mul PosInf PosInf = PosInf"
| "js_mul PosInf NegInf = NegInf"
| "js_mul NegInf PosInf = NegInf"
| "js_mul NegInf NegInf = PosInf"

text \<open>
  The \<open>/\<close> of the language; a zero divisor counts as positive zero. The program divides
  once, in \<open>Math.floor(scaledWidth / numSplits)\<close>, and uses only the floor of the
  quotient. The quotient is kept exact here, not rounded to a double. Its floor is the
  floor the program computes when the dividend is a double from 0 to \<open>2 ^ 53\<close> and the
  divisor a positive integer, and it is 0 exactly when the program's is, for operands that
  are not negative. No fact below depends on the floor of another quotient.
\<close>

fun js_div :: "number \<Rightarrow> number \<Rightarrow> number" where
  "js_div NaN b = NaN"
| "js_div a NaN = NaN"
| "js_div (Fin a) (Fin b) =
     (if b = 0 then (if a = 0 then NaN else if 0 < a then PosInf else NegInf)
      else Fin (a / b))"
| "js_div (Fin a) PosInf = Fin 0"
| "js_div (Fin a) NegInf = Fin 0"
| "js_div PosInf (Fin b) = (if 0 \<le> b then PosInf else NegInf)"
| "js_div NegInf (Fin b) = (if 0 \<le> b then NegInf else PosInf)"
| "js_div PosInf PosInf = NaN"
| "js_div PosInf NegInf = NaN"
| "js_div NegInf PosInf = NaN"
| "js_div NegInf NegInf = NaN"

text \<open>\<open>Math.floor\<close>.\<close>

fun js_floor :: "number \<Rightarrow> number" where
  "js_floor (Fin a) = Fin (of_int \<lfloor>a\<rfloor>)"
| "js_floor a = a"

text \<open>The comparison \<open>a < b\<close>; \<open>a > b\<close> is \<open>b < a\<close>. Every comparison with \<open>NaN\<close> is false.\<close>

fun js_lt :: "number \<Rightarrow> number \<Rightarrow> bool" where
  "js_lt NaN b = False"
| "js_lt a NaN = False"
| "js_lt (Fin a) (Fin b) = (a < b)"
| "js_lt a PosInf = (a \<noteq> PosInf)"
| "js_lt PosInf b = False"
| "js_lt NegInf b = (b \<noteq> NegInf)"
| "js_lt a NegInf = False"

section \<open>Editor state and \<open>handleInputChange\<close>\<close>

text \<open>
  \<open>EditorState\<close> is an object with the properties \<open>scale\<close>, \<open>numSplits\<close> and
  \<open>horizontalRepeat\<close>. The change handler writes it through a computed key
  (\<open>{...prev, [id]: v}\<close>), so the state is a finite map from property names to numbers
  rather than a record with three fixed fields.
\<close>

type_synonym editorState = "string \<rightharpoonup> number"

definition initialState :: editorState where
  "initialState = [''scale'' \<mapsto> Fin 6, ''numSplits'' \<mapsto> Fin 1, ''horizontalRepeat'' \<mapsto> Fin 1]"

text \<open>
  Reading a property. A missing property reads as \<open>undefined\<close>, which every use in the
  pipeline (a product, a quotient, a comparison) converts to \<open>NaN\<close>.
\<close>

definition field :: "editorState \<Rightarrow> string \<Rightarrow> number" where
  "field st k = (case st k of None \<Rightarrow> NaN | Some v \<Rightarrow> v)"

text \<open>The part of a change event the handler reads: \<open>event.target.id\<close> and \<open>.value\<close>.\<close>

record event =
  target_id :: string
  target_value :: string

text \<open>
  \<open>parseFloat\<close> belongs to the language, not to the repository; the handler takes it as a
  parameter. The handler is the same text in both editor components.
\<close>

definition handleInputChange :: "(string \<Rightarrow> number) \<Rightarrow> event \<Rightarrow> editorState \<Rightarrow> editorState" where
  "handleInputChange parseFloat ev prev =
     (let numValue = parseFloat (target_value ev)
      in prev(target_id ev \<mapsto> (if js_lt (Fin 0) numValue then numValue else Fin 1)))"

text \<open>A table of \<open>parseFloat\<close> on a few inputs, for evaluating the handler.\<close>

definition parseFloat_sample :: "string \<Rightarrow> number" where
  "parseFloat_sample s =
     (if s = ''2.5'' then Fin (5 / 2)
      else if s = ''4'' then Fin 4
      else if s = ''-3'' then Fin (- 3)
      else if s = ''0'' then Fin 0
      else if s = ''Infinity'' then PosInf
      else NaN)"

section \<open>Bitmaps and the canvas\<close>

text \<open>
  A pixel is four bytes, red, green, blue and alpha (not premultiplied). An image and a
  canvas are both a width, a height and a bitmap; the bitmap is read inside these bounds
  only.
\<close>

datatype pixel = RGBA "8 word" "8 word" "8 word" "8 word"

fun alpha :: "pixel \<Rightarrow> nat" where
  "alpha (RGBA r g b a) = unat a"

definition white :: pixel where
  "white = RGBA 255 255 255 255"

definition transparent :: pixel where
  "transparent = RGBA 0 0 0 0"

text \<open>
  Drawing composites with the default operation, source over destination. An opaque
  source pixel replaces the destination and a fully transparent one leaves it. In between
  the two are mixed; how the mixture is rounded is the browser's affair, and the mixing
  function is a parameter \<open>bl\<close> of the model. On an opaque destination the result is
  opaque whatever the colours.
\<close>

fun opaque_of :: "pixel \<Rightarrow> pixel" where
  "opaque_of (RGBA r g b a) = RGBA r g b 255"

definition over :: "(pixel \<Rightarrow> pixel \<Rightarrow> pixel) \<Rightarrow> pixel \<Rightarrow> pixel \<Rightarrow> pixel" where
  "over bl s d =
     (if alpha s = 255 then s
      else if alpha s = 0 then d
      else if alpha d = 255 then opaque_of (bl s d)
      else bl s d)"

record raster =
  width :: nat
  height :: nat
  bitmap :: "nat \<Rightarrow> nat \<Rightarrow> pixel"

text \<open>
  Assigning a number to \<open>canvas.width\<close> converts it to an unsigned 32-bit integer:
  \<open>NaN\<close> and the infinities become 0, a finite value loses its fraction and is taken
  modulo \<open>2 ^ 32\<close>. The attribute then keeps a value below \<open>2 ^ 31\<close> and replaces any other
  by its default, which is 300 for the width. (The limit that a browser puts on the bitmap
  it can allocate is lower still and differs between browsers; it is not represented.)
\<close>

fun toDimension :: "nat \<Rightarrow> number \<Rightarrow> nat" where
  "toDimension dflt (Fin a) =
     (let t = (if 0 \<le> a then \<lfloor>a\<rfloor> else \<lceil>a\<rceil>) mod 2 ^ 32
      in if t < 2 ^ 31 then nat t else dflt)"
| "toDimension dflt a = 0"

declare toDimension.simps [simp del]

text \<open>
  \<open>createCanvas(width, height)\<close>: a new canvas of that size, transparent at first, on
  which \<open>fillRect(0, 0, width, height)\<close> paints opaque white: the columns below \<open>width\<close>,
  so the whole bitmap when \<open>width\<close> is not negative. Every call passes an integer height
  (\<open>img.height\<close>, or \<open>totalHeight\<close>, the height of a stack of slices that exist), which is
  kept as it is; a height from \<open>2 ^ 31\<close> on, which the attribute would not keep, is not
  represented. The 2d context of a fresh canvas is never null.
\<close>

definition createCanvas :: "number \<Rightarrow> nat \<Rightarrow> raster" where
  "createCanvas w h =
     \<lparr>width = toDimension 300 w, height = h,
      bitmap = (\<lambda>x y. if x < toDimension 300 w \<and> y < h \<and> js_lt (Fin (of_nat x)) w
                       then white else transparent)\<rparr>"

text \<open>
  What the browser decides: the filter with which it resamples an image drawn at another
  size (\<open>resample pf im dw x y\<close> is the colour it gives pixel \<open>(x, y)\<close> of \<open>im\<close> stretched
  to the width \<open>dw\<close>; drawn at its own size an image is copied exactly), and the mixture
  of a translucent pixel with the pixel it is drawn on.
\<close>

type_synonym resampler = "raster \<Rightarrow> rat \<Rightarrow> nat \<Rightarrow> nat \<Rightarrow> pixel"

record platform =
  resample :: resampler
  blend :: "pixel \<Rightarrow> pixel \<Rightarrow> pixel"

text \<open>
  One drawing operation on a canvas: \<open>src x y\<close> is the source pixel that lands on the
  canvas pixel \<open>(x, y)\<close>, if any. What falls outside the canvas is clipped.
\<close>

definition paint :: "platform \<Rightarrow> (nat \<Rightarrow> nat \<Rightarrow> pixel option) \<Rightarrow> raster \<Rightarrow> raster" where
  "paint pf src c =
     c\<lparr>bitmap := (\<lambda>x y. if x < width c \<and> y < height c
                          then (case src x y of None \<Rightarrow> bitmap c x y | Some p \<Rightarrow> over (blend pf) p (bitmap c x y))
                          else bitmap c x y)\<rparr>"

text \<open>
  The exceptions: \<open>InvalidStateError\<close> is what \<open>drawImage\<close> throws for a source canvas
  without pixels. \<open>InvalidParameter\<close> is the error the specification names; no code path
  of the repository raises it.
\<close>

datatype exn = InvalidStateError | InvalidParameter

text \<open>
  \<open>scaledCtx.drawImage(img, 0, 0, scaledWidth, img.height)\<close>. A non-finite argument
  makes the call return without drawing, and so does an image without pixels. The
  destination rectangle is \<open>[0, scaledWidth) \<times> [0, img.height)\<close>; a width that is not
  positive puts nothing on the canvas.
\<close>

definition drawImage_scaled :: "platform \<Rightarrow> raster \<Rightarrow> number \<Rightarrow> raster \<Rightarrow> raster" where
  "drawImage_scaled pf img scaledWidth c =
     (case scaledWidth of
        Fin q \<Rightarrow>
          if width img = 0 \<or> height img = 0 then c
          else paint pf (\<lambda>x y. if of_nat x + 1 \<le> q \<and> y < height img
                             then Some (if q = of_nat (width img) then bitmap img x y else resample pf img q x y)
                             else None) c
      | _ \<Rightarrow> c)"

text \<open>
  \<open>sliceCtx.drawImage(scaledCanvas, i * sliceWidth, 0, sliceWidth, img.height, 0, 0,
  sliceWidth, img.height)\<close>: source and destination rectangle have the same size, so
  pixels are copied one to one. In the order of the platform: a non-finite argument returns
  at once; a source canvas without pixels throws; a source rectangle of width or height 0
  returns; the part of the source rectangle beyond the source bitmap is not drawn.
  \<open>sliceWidth\<close> comes from \<open>Math.floor\<close>, so both it and the offset are integers.
\<close>

definition drawImage_slice :: "platform \<Rightarrow> raster \<Rightarrow> nat \<Rightarrow> number \<Rightarrow> nat \<Rightarrow> raster \<Rightarrow> exn + raster" where
  "drawImage_slice pf scaledCanvas i sliceWidth h c =
     (case (js_mul (Fin (of_nat i)) sliceWidth, sliceWidth) of
        (Fin sx, Fin sw) \<Rightarrow>
          if width scaledCanvas = 0 \<or> height scaledCanvas = 0 then Inl InvalidStateError
          else if sw = 0 \<or> h = 0 then Inr c
          else Inr (paint pf (\<lambda>x y. if of_nat x < sw \<and> y < h
                                      \<and> nat \<lfloor>sx\<rfloor> + x < width scaledCanvas \<and> y < height scaledCanvas
                                  then Some (bitmap scaledCanvas (nat \<lfloor>sx\<rfloor> + x) y)
                                  else None) c)
      | _ \<Rightarrow> Inr c)"

text \<open>
  The body of \<open>sliceImg.onload\<close>: between \<open>save\<close> and \<open>restore\<close>, a slice at an odd
  index is drawn under \<open>translate(0, (i + 1) * img.height)\<close> and \<open>scale(1, -1)\<close>, which
  sends row \<open>r\<close> of the image to row \<open>(i + 1) * img.height - 1 - r\<close> of the canvas; a
  slice at an even index is drawn at \<open>(0, i * img.height)\<close>.
\<close>

definition drawImage_stacked :: "platform \<Rightarrow> raster \<Rightarrow> nat \<Rightarrow> nat \<Rightarrow> raster \<Rightarrow> raster" where
  "drawImage_stacked pf sliceImg i h c =
     (if i mod 2 = 1
      then paint pf (\<lambda>x y. if x < width sliceImg \<and> y < (i + 1) * h \<and> (i + 1) * h - 1 - y < height sliceImg
                         then Some (bitmap sliceImg x ((i + 1) * h - 1 - y))
                         else None) c
      else paint pf (\<lambda>x y. if x < width sliceImg \<and> i * h \<le> y \<and> y - i * h < height sliceImg
                         then Some (bitmap sliceImg x (y - i * h))
                         else None) c)"

text \<open>
  The backup component writes the same handler with an explicit size,
  \<open>drawImage(img, 0, 0, sliceWidth, sliceHeight)\<close> under the flip and
  \<open>drawImage(img, 0, i * sliceHeight, sliceWidth, sliceHeight)\<close> otherwise, where
  \<open>sliceWidth\<close> and \<open>sliceHeight\<close> are the size of the first slice image. An image of
  another size would be resampled to it, by a filter \<open>rs2\<close> of the browser.
\<close>

definition drawImage_stacked_sized ::
  "platform \<Rightarrow> (raster \<Rightarrow> nat \<Rightarrow> nat \<Rightarrow> nat \<Rightarrow> nat \<Rightarrow> pixel) \<Rightarrow> raster \<Rightarrow> nat \<Rightarrow> nat \<Rightarrow> nat \<Rightarrow> raster \<Rightarrow> raster" where
  "drawImage_stacked_sized pf rs2 sliceImg i sliceWidth sliceHeight c =
     (let sample = (\<lambda>x y. if width sliceImg = sliceWidth \<and> height sliceImg = sliceHeight
                             then bitmap sliceImg x y
                             else rs2 sliceImg sliceWidth sliceHeight x y)
      in if i mod 2 = 1
         then paint pf (\<lambda>x y. if x < sliceWidth \<and> y < (i + 1) * sliceHeight
                                \<and> (i + 1) * sliceHeight - 1 - y < sliceHeight
                            then Some (sample x ((i + 1) * sliceHeight - 1 - y))
                            else None) c
         else paint pf (\<lambda>x y. if x < sliceWidth \<and> i * sliceHeight \<le> y \<and> y - i * sliceHeight < sliceHeight
                            then Some (sample x (y - i * sliceHeight))
                            else None) c)"

text \<open>
  \<open>finalCtx.drawImage(verticalCanvas, i * sliceWidth, 0)\<close>: the source at its own size,
  its left edge at the (integer) offset.
\<close>

definition drawImage_tile :: "platform \<Rightarrow> raster \<Rightarrow> nat \<Rightarrow> number \<Rightarrow> raster \<Rightarrow> exn + raster" where
  "drawImage_tile pf verticalCanvas i sliceWidth c =
     (case js_mul (Fin (of_nat i)) sliceWidth of
        Fin dx \<Rightarrow>
          if width verticalCanvas = 0 \<or> height verticalCanvas = 0 then Inl InvalidStateError
          else Inr (paint pf (\<lambda>x y. if \<lfloor>dx\<rfloor> \<le> int x \<and> int x - \<lfloor>dx\<rfloor> < int (width verticalCanvas)
                                      \<and> y < height verticalCanvas
                                  then Some (bitmap verticalCanvas (nat (int x - \<lfloor>dx\<rfloor>)) y)
                                  else None) c)
      | _ \<Rightarrow> Inr c)"

text \<open>
  \<open>toDataURL\<close> serialises the bitmap as a PNG; a canvas without pixels gives the string
  \<open>data:,\<close>. An \<open>Image\<close> whose \<open>src\<close> is such a URL loads the bitmap back and then fires
  \<open>onload\<close>; \<open>data:,\<close> is no image, and \<open>onload\<close> is never called for it.
\<close>

datatype dataurl = EmptyData | PngData raster

definition toDataURL :: "raster \<Rightarrow> dataurl" where
  "toDataURL c = (if width c = 0 \<or> height c = 0 then EmptyData else PngData c)"

fun loadImage :: "dataurl \<Rightarrow> raster option" where
  "loadImage EmptyData = None"
| "loadImage (PngData r) = Some r"

section \<open>The pipeline of \<open>processAndDownload\<close>\<close>

text \<open>
  Step 1 of the callback: a canvas of \<open>scaledWidth\<close> by \<open>img.height\<close>, and the image
  drawn into it stretched to that width. The height is passed on as it is. \<open>splitImage\<close>
  of the backup component opens with the same statements.
\<close>

definition scaleStep :: "platform \<Rightarrow> raster \<Rightarrow> number \<Rightarrow> raster" where
  "scaleStep pf img scaledWidth =
     drawImage_scaled pf img scaledWidth (createCanvas scaledWidth (height img))"

text \<open>
  Step 2 of the callback, the loop \<open>for (let i = 0; i < numSplits; i++)\<close>. The bound is
  a number, not an integer; with an infinite bound the loop does not end, so the loop is a
  partial function and \<open>None\<close> stands for not returning. An exception leaves the loop.
\<close>

partial_function (option) sliceLoop ::
  "platform \<Rightarrow> raster \<Rightarrow> number \<Rightarrow> nat \<Rightarrow> number \<Rightarrow> nat \<Rightarrow> dataurl list \<Rightarrow> (exn + dataurl list) option" where
  "sliceLoop pf scaledCanvas sliceWidth h numSplits i slices =
     (if js_lt (Fin (of_nat i)) numSplits
      then (case drawImage_slice pf scaledCanvas i sliceWidth h (createCanvas sliceWidth h) of
              Inl e \<Rightarrow> Some (Inl e)
            | Inr c \<Rightarrow>
                sliceLoop pf scaledCanvas sliceWidth h numSplits (i + 1) (slices @ [toDataURL c]))
      else Some (Inr slices))"

text \<open>Step 4, the loop \<open>for (let i = 0; i < editorState.horizontalRepeat; i++)\<close>.\<close>

partial_function (option) repeatLoop ::
  "platform \<Rightarrow> raster \<Rightarrow> number \<Rightarrow> number \<Rightarrow> nat \<Rightarrow> raster \<Rightarrow> (exn + raster) option" where
  "repeatLoop pf verticalCanvas sliceWidth horizontalRepeat i finalCanvas =
     (if js_lt (Fin (of_nat i)) horizontalRepeat
      then (case drawImage_tile pf verticalCanvas i sliceWidth finalCanvas of
              Inl e \<Rightarrow> Some (Inl e)
            | Inr c \<Rightarrow> repeatLoop pf verticalCanvas sliceWidth horizontalRepeat (i + 1) c)
      else Some (Inr finalCanvas))"

text \<open>Step 4 as a whole: the final canvas, then the loop over it.\<close>

definition repeatStep :: "platform \<Rightarrow> raster \<Rightarrow> number \<Rightarrow> number \<Rightarrow> nat \<Rightarrow> (exn + raster) option" where
  "repeatStep pf verticalCanvas sliceWidth horizontalRepeat totalHeight =
     repeatLoop pf verticalCanvas sliceWidth horizontalRepeat 0
       (createCanvas (js_mul sliceWidth horizontalRepeat) totalHeight)"

text \<open>
  What a run of \<open>processAndDownload\<close> comes to. \<open>Download u\<close>: the link with \<open>href = u\<close>
  was clicked. \<open>Stalled\<close>: the callback waits for an \<open>onload\<close> that never comes, and
  nothing is downloaded. \<open>Uncaught e\<close>: \<open>e\<close> was thrown inside the asynchronous
  \<open>onload\<close> callback; its promise is rejected, nobody handles that (the \<open>try\<close> of the
  caller awaits another promise, one that can only be resolved), and nothing is
  downloaded. \<open>Diverges\<close>: a loop does not end.
\<close>

datatype outcome = Download dataurl | Stalled | Uncaught exn | Diverges

text \<open>
  Step 3. Every slice is loaded into an \<open>Image\<close>, and \<open>Promise.all\<close> waits for all of
  them. The \<open>onload\<close> handlers run one at a time, in the order in which the images finish
  loading: \<open>loadTime i\<close> is the moment at which slice \<open>i\<close> does.
\<close>

definition loadOrder :: "(nat \<Rightarrow> nat) \<Rightarrow> nat \<Rightarrow> nat list" where
  "loadOrder loadTime n = sort_key loadTime [0..<n]"

definition mergeVertical ::
  "platform \<Rightarrow> (nat \<Rightarrow> nat) \<Rightarrow> dataurl list \<Rightarrow> number \<Rightarrow> nat \<Rightarrow> raster option" where
  "mergeVertical pf loadTime slices sliceWidth h =
     (let totalHeight = h * length slices;
          verticalCanvas = createCanvas sliceWidth totalHeight
      in case those (map loadImage slices) of
           None \<Rightarrow> None
         | Some sliceImgs \<Rightarrow>
             Some (fold (\<lambda>i. drawImage_stacked pf (sliceImgs ! i) i h)
                        (loadOrder loadTime (length sliceImgs)) verticalCanvas))"

text \<open>
  The callback \<open>img.onload\<close>, steps 1 to 5, for the decoded image and the state captured
  by the component.
\<close>

definition onload :: "platform \<Rightarrow> (nat \<Rightarrow> nat) \<Rightarrow> raster \<Rightarrow> editorState \<Rightarrow> outcome" where
  "onload pf loadTime img editorState =
     (let scale = field editorState ''scale'';
          numSplits = field editorState ''numSplits'';
          scaledWidth = js_mul (Fin (of_nat (width img))) scale;
          sliceWidth = js_floor (js_div scaledWidth numSplits);
          scaledCanvas = scaleStep pf img scaledWidth
      in case sliceLoop pf scaledCanvas sliceWidth (height img) numSplits 0 [] of
           None \<Rightarrow> Diverges
         | Some (Inl e) \<Rightarrow> Uncaught e
         | Some (Inr slices) \<Rightarrow>
             (let totalHeight = height img * length slices
              in case mergeVertical pf loadTime slices sliceWidth (height img) of
                   None \<Rightarrow> Stalled
                 | Some verticalCanvas \<Rightarrow>
                     (case repeatStep pf verticalCanvas sliceWidth
                             (field editorState ''horizontalRepeat'') totalHeight of
                        None \<Rightarrow> Diverges
                      | Some (Inl e) \<Rightarrow> Uncaught e
                      | Some (Inr finalCanvas) \<Rightarrow> Download (toDataURL finalCanvas))))"

text \<open>
  \<open>processAndDownload\<close>: the file is decoded first; for a file that is no image
  \<open>img.onload\<close> is never called.
\<close>

definition processAndDownload ::
  "platform \<Rightarrow> (nat \<Rightarrow> nat) \<Rightarrow> raster option \<Rightarrow> editorState \<Rightarrow> outcome" where
  "processAndDownload pf loadTime imageFile editorState =
     (case imageFile of None \<Rightarrow> Stalled | Some img \<Rightarrow> onload pf loadTime img editorState)"

section \<open>The steps in closed form\<close>

text \<open>
  The notions of this section are not part of the program; they say what its loops
  compute, and the facts below are stated with them.
\<close>

text \<open>The canvas of slice \<open>i\<close>, as one round of the loop leaves it when nothing is thrown.\<close>

definition sliceCanvas :: "platform \<Rightarrow> raster \<Rightarrow> number \<Rightarrow> nat \<Rightarrow> nat \<Rightarrow> raster" where
  "sliceCanvas pf scaledCanvas sliceWidth h i =
     (case drawImage_slice pf scaledCanvas i sliceWidth h (createCanvas sliceWidth h) of
        Inl e \<Rightarrow> createCanvas sliceWidth h
      | Inr c \<Rightarrow> c)"

text \<open>
  What a canvas holds once the slices with an index in \<open>I\<close> have been drawn, whatever the
  order: the band of rows \<open>[i * h, (i + 1) * h)\<close> belongs to slice \<open>i\<close>, and row \<open>y\<close> of
  the canvas shows row \<open>y mod h\<close> of the slice, counted from the bottom when \<open>i\<close> is odd.
\<close>

definition stacked :: "platform \<Rightarrow> raster list \<Rightarrow> nat \<Rightarrow> nat set \<Rightarrow> raster \<Rightarrow> raster" where
  "stacked pf sliceImgs h I c =
     c\<lparr>bitmap := (\<lambda>x y.
          if x < width c \<and> y < height c \<and> 0 < h \<and> y div h \<in> I \<and> x < width (sliceImgs ! (y div h))
          then over (blend pf) (bitmap (sliceImgs ! (y div h)) x
                       (if (y div h) mod 2 = 1 then h - 1 - y mod h else y mod h))
                    (bitmap c x y)
          else bitmap c x y)\<rparr>"

text \<open>A slice as the loop hands it on: nothing, or the PNG of a canvas of height \<open>h\<close>.\<close>

definition sliceOfHeight :: "nat \<Rightarrow> dataurl \<Rightarrow> bool" where
  "sliceOfHeight h u = (case u of EmptyData \<Rightarrow> True | PngData r \<Rightarrow> height r = h)"

text \<open>
  What the final canvas holds once the copies with an index in \<open>K\<close> have been drawn, for
  a composite of width \<open>w\<close>: column \<open>x\<close> belongs to copy \<open>x div w\<close> and shows column
  \<open>x mod w\<close> of the composite.
\<close>

definition tiled :: "platform \<Rightarrow> raster \<Rightarrow> nat \<Rightarrow> nat set \<Rightarrow> raster \<Rightarrow> raster" where
  "tiled pf verticalCanvas w K c =
     c\<lparr>bitmap := (\<lambda>x y.
          if x < width c \<and> y < height c \<and> 0 < w \<and> x div w \<in> K \<and> y < height verticalCanvas
          then over (blend pf) (bitmap verticalCanvas (x mod w) y) (bitmap c x y)
          else bitmap c x y)\<rparr>"

section \<open>Inputs for evaluation\<close>

text \<open>
  A platform to evaluate the pipeline with: it resamples by taking the nearest source
  column, and mixes a translucent pixel with the one below it in exact arithmetic, rounded
  to the nearest byte.
\<close>

definition nearest :: resampler where
  "nearest im dw x y = bitmap im (nat \<lfloor>(of_nat x + 1 / 2) * of_nat (width im) / dw\<rfloor>) y"

fun mixNearest :: "pixel \<Rightarrow> pixel \<Rightarrow> pixel" where
  "mixNearest (RGBA sr sg sb sa) (RGBA dr dg db da) =
     (let a = rat_of_nat (unat sa) / 255;
          b = rat_of_nat (unat da) / 255 * (1 - a);
          ch = (\<lambda>p q. of_nat (nat \<lfloor>(rat_of_nat (unat p) * a + rat_of_nat (unat q) * b) / (a + b) + 1 / 2\<rfloor>))
      in RGBA (ch sr dr) (ch sg dg) (ch sb db) (of_nat (nat \<lfloor>255 * (a + b) + 1 / 2\<rfloor>)))"

definition samplePlatform :: platform where
  "samplePlatform = \<lparr>resample = nearest, blend = mixNearest\<rparr>"

text \<open>
  Inputs to evaluate the pipeline on: an opaque image of 4 by 2 pixels, each with a colour
  of its own; an opaque image of 10 by 1 pixels; an image of one fully transparent pixel;
  the double nearest to 0.7; and states of the editor.
\<close>

definition sampleImage :: raster where
  "sampleImage = \<lparr>width = 4, height = 2, bitmap = (\<lambda>x y. RGBA (of_nat x) (of_nat y) 0 255)\<rparr>"

definition wideImage :: raster where
  "wideImage = \<lparr>width = 10, height = 1, bitmap = (\<lambda>x y. RGBA (of_nat x) 0 0 255)\<rparr>"

definition clearImage :: raster where
  "clearImage = \<lparr>width = 1, height = 1, bitmap = (\<lambda>x y. transparent)\<rparr>"

definition double_0_7 :: rat where
  "double_0_7 = 6305039478318694 / 9007199254740992"

definition sampleState :: editorState where
  "sampleState = [''scale'' \<mapsto> Fin 2, ''numSplits'' \<mapsto> Fin 4, ''horizontalRepeat'' \<mapsto> Fin 3]"

definition narrowState :: editorState where
  "narrowState = [''scale'' \<mapsto> Fin 2, ''numSplits'' \<mapsto> Fin 9, ''horizontalRepeat'' \<mapsto> Fin 1]"

definition fineState :: editorState where
  "fineState = [''scale'' \<mapsto> Fin double_0_7, ''numSplits'' \<mapsto> Fin 7, ''horizontalRepeat'' \<mapsto> Fin 1]"

definition endlessState :: editorState where
  "endlessState = [''scale'' \<mapsto> Fin 2, ''numSplits'' \<mapsto> PosInf, ''horizontalRepeat'' \<mapsto> Fin 1]"

definition unitState :: editorState where
  "unitState = [''scale'' \<mapsto> Fin 1, ''numSplits'' \<mapsto> Fin 1, ''horizontalRepeat'' \<mapsto> Fin 1]"

section \<open>Facts about the editor state\<close>

text \<open>
  Whatever is typed, the handler stores a number above 0, and the initial state holds
  such numbers: the pipeline never sees a parameter that is \<open>NaN\<close>, zero or negative.
\<close>

lemma handleInputChange_positive:
  "js_lt (Fin 0) (field (handleInputChange parseFloat ev prev) (target_id ev))"
  by (simp add: handleInputChange_def field_def Let_def)

lemma handleInputChange_keeps_positive:
  assumes "js_lt (Fin 0) (field prev k)"
  shows "js_lt (Fin 0) (field (handleInputChange parseFloat ev prev) k)"
  using assms by (simp add: handleInputChange_def field_def Let_def)

lemma initialState_positive:
  "js_lt (Fin 0) (field initialState ''scale'')"
  "js_lt (Fin 0) (field initialState ''numSplits'')"
  "js_lt (Fin 0) (field initialState ''horizontalRepeat'')"
  by (simp_all add: initialState_def field_def)

section \<open>Facts about rounding\<close>

text \<open>The bounds that \<open>bits\<close> gives: \<open>n\<close> lies between two powers of 2.\<close>

lemma bits_bounds: "0 < n \<Longrightarrow> 2 ^ (bits n - 1) \<le> n \<and> n < 2 ^ bits n"
proof (induction n rule: bits.induct)
  case (1 n)
  show ?case
  proof (cases "n div 2 = 0")
    case True
    with 1(2) have "n = 1" by (simp add: div_eq_0_iff) 
    then show ?thesis by (simp add: bits.simps)
  next
    case False
    then have pos: "0 < n div 2" by simp
    from 1(1) [OF _ pos] 1(2) have IH: "2 ^ (bits (n div 2) - 1) \<le> n div 2" "n div 2 < 2 ^ bits (n div 2)"
      by simp_all
    have b: "bits n = Suc (bits (n div 2))" using 1(2) by (subst bits.simps) simp
    have bpos: "0 < bits (n div 2)" using pos by (subst bits.simps) simp
    then have e: "bits n - 1 = Suc (bits (n div 2) - 1)" using b by simp
    have "2 ^ (bits n - 1) = 2 * 2 ^ (bits (n div 2) - 1)" unfolding e by simp
    also have "\<dots> \<le> 2 * (n div 2)" using IH(1) by simp
    also have "\<dots> \<le> n" by simp
    finally have lo: "2 ^ (bits n - 1) \<le> n" .
    have "n < 2 * (n div 2) + 2" by presburger
    also have "\<dots> \<le> 2 * 2 ^ bits (n div 2)" using IH(2) by simp
    finally have "n < 2 ^ bits n" unfolding b by simp
    with lo show ?thesis by simp
  qed
qed

lemma round_half_even_of_int [simp]: "round_half_even (of_int z) = z"
  by (simp add: round_half_even_def)

lemma round_double_of_nat:
  assumes "k < 2 ^ 53"
  shows "round_double (of_nat k) = Fin (of_nat k)"
proof (cases "k = 0")
  case True
  then show ?thesis by (simp add: round_double_def)
next
  case False
  then have k: "0 < k" by simp
  define e where "e = bits k - 1"
  define x where "x = rat_of_nat k"
  have ax: "\<bar>x\<bar> = x" and x1: "1 \<le> x" and flx: "\<lfloor>x\<rfloor> = int k"
    using k by (simp_all add: x_def)
  from bits_bounds [OF k] have lo: "2 ^ e \<le> k" and hi: "k < 2 ^ bits k" by (simp_all add: e_def)
  have "(2::nat) ^ e < 2 ^ 53" using lo assms by (rule le_less_trans)
  then have "e < 53" by (rule power_less_imp_less_exp [rotated]) simp
  then have e52: "e \<le> 52" by simp
  have bpos: "0 < bits k" using k by (subst bits.simps) simp
  have ex: "exponent x = int e"
    using x1 bpos by (simp add: exponent_def flx e_def)
  have p: "max (exponent x) (- 1022) - 52 = - int (52 - e)"
    using e52 by (simp add: ex)
  have qu: "quantum x = 1 / 2 ^ (52 - e)"
  proof (cases "e = 52")
    case True
    then show ?thesis unfolding quantum_def p Let_def by simp
  next
    case False
    with e52 have "e < 52" by simp
    then show ?thesis unfolding quantum_def p Let_def by simp
  qed
  define z where "z = int k * 2 ^ (52 - e)"
  have arg: "x / quantum x = of_int z"
    unfolding qu by (simp add: x_def z_def)
  have rh: "round_half_even (x / quantum x) = z"
    unfolding arg by (rule round_half_even_of_int)
  have zx: "of_int z * (1 / 2 ^ (52 - e)) = x"
    by (simp add: x_def z_def)
  have y: "of_int (round_half_even (x / quantum x)) * quantum x = x"
  proof -
    have "of_int (round_half_even (x / quantum x)) * quantum x = of_int z * quantum x"
      by (simp only: rh)
    also have "\<dots> = of_int z * (1 / 2 ^ (52 - e))" by (simp only: qu)
    also note zx
    finally show ?thesis .
  qed
  have "rat_of_nat k < rat_of_nat (2 ^ 53)" using assms by (simp only: of_nat_less_iff)
  then have "x < 2 ^ 53" by (simp add: x_def)
  also have "\<dots> \<le> (2::rat) ^ 1024" by simp
  finally have small: "\<not> (2::rat) ^ 1024 \<le> x" by simp
  have "round_double x = Fin x"
    unfolding round_double_def Let_def ax y using x1 small by simp
  then show ?thesis by (simp add: x_def)
qed

text \<open>A product of two integers is exact as long as it stays below \<open>2 ^ 53\<close>.\<close>

lemma round_double_0 [simp]: "round_double 0 = Fin 0"
  by (simp add: round_double_def)

lemma js_mul_nat:
  assumes "i * w < 2 ^ 53"
  shows "js_mul (Fin (of_nat i)) (Fin (of_nat w)) = Fin (of_nat (i * w))"
  using round_double_of_nat [OF assms] by simp

lemma quantum_pos: "0 < quantum x"
  by (simp add: quantum_def Let_def)

lemma round_half_even_nonneg: "0 \<le> x \<Longrightarrow> 0 \<le> round_half_even x"
  by (simp add: round_half_even_def Let_def)

text \<open>The double nearest to a number that is not negative is not negative.\<close>

lemma round_double_nonneg:
  assumes "0 \<le> x" "round_double x = Fin p"
  shows "0 \<le> p"
proof (cases "x = 0")
  case True
  with assms(2) show ?thesis by (simp add: round_double_def)
next
  case False
  with assms(1) have x: "0 < x" "\<bar>x\<bar> = x" by simp_all
  define y where "y = of_int (round_half_even (x / quantum x)) * quantum x"
  have "0 \<le> x / quantum x" using x(1) quantum_pos [of x] by simp
  then have "0 \<le> round_half_even (x / quantum x)" by (rule round_half_even_nonneg)
  then have "0 \<le> y" using quantum_pos [of x] by (simp add: y_def)
  moreover have "p = y"
    using assms(2) x False unfolding round_double_def Let_def x(2) y_def [symmetric]
    by (simp split: if_splits)
  ultimately show ?thesis by simp
qed

text \<open>The product of 10 and the double nearest to 0.7 is the double 7.\<close>

lemma round_double_0_7: "round_double (10 * double_0_7) = Fin 7"
proof -
  define x :: rat where "x = 15762598695796735 / 2251799813685248"
  have x: "10 * double_0_7 = x" by (simp add: x_def double_0_7_def)
  have ax: "\<bar>x\<bar> = x" and x1: "1 \<le> x" by (simp_all add: x_def)
  have fl: "\<lfloor>x\<rfloor> = 6" unfolding x_def by (rule floor_unique) simp_all
  have b: "bits 6 = 3" by (simp add: bits.simps)
  have ex: "exponent x = 2"
    using x1 by (simp add: exponent_def fl b)
  have qu: "quantum x = 1 / 2 ^ 50" by (simp add: quantum_def ex)
  have arg: "x / (1 / 2 ^ 50) = 15762598695796735 / 2" by (simp add: x_def)
  have fl2: "\<lfloor>15762598695796735 / 2 :: rat\<rfloor> = 7881299347898367" by (rule floor_unique) simp_all
  have rh: "round_half_even (15762598695796735 / 2) = 7881299347898368"
    by (simp add: round_half_even_def fl2 Let_def)
  have y: "of_int (round_half_even (x / quantum x)) * quantum x = 7"
    unfolding qu arg rh by simp
  have "x \<noteq> 0" "0 < x" using x1 by simp_all
  moreover have "\<not> (2::rat) ^ 1024 \<le> 7" by simp
  ultimately show ?thesis
    unfolding x round_double_def Let_def ax y by simp
qed

text \<open>A number below 1: the double nearest to one tenth.\<close>

lemma round_double_tenth: "round_double (1 / 10) = Fin (3602879701896397 / 36028797018963968)"
proof -
  define x :: rat where "x = 1 / 10"
  have ax: "\<bar>x\<bar> = x" and x1: "\<not> 1 \<le> x" "x \<noteq> 0" "0 < x" by (simp_all add: x_def)
  have c: "\<lceil>1 / x\<rceil> = 10" by (simp add: x_def)
  have b: "bits 9 = 4" by (simp add: bits.simps)
  have ex: "exponent x = - 4"
    using x1 by (simp add: exponent_def c b)
  have qu: "quantum x = 1 / 2 ^ 56" by (simp add: quantum_def ex)
  have arg: "x / (1 / 2 ^ 56) = 36028797018963968 / 5" by (simp add: x_def)
  have fl: "\<lfloor>36028797018963968 / 5 :: rat\<rfloor> = 7205759403792793" by (rule floor_unique) simp_all
  have rh: "round_half_even (36028797018963968 / 5) = 7205759403792794"
    by (simp add: round_half_even_def fl Let_def)
  have y: "of_int (round_half_even (x / quantum x)) * quantum x = 3602879701896397 / 36028797018963968"
    unfolding qu arg rh by simp
  have "\<not> (2::rat) ^ 1024 \<le> 3602879701896397 / 36028797018963968" by simp
  with x1 have "round_double x = Fin (3602879701896397 / 36028797018963968)"
    unfolding round_double_def Let_def ax y by simp
  then show ?thesis by (simp add: x_def)
qed

section \<open>Facts about pixels and canvases\<close>

lemma over_opaque_src: "alpha s = 255 \<Longrightarrow> over bl s d = s"
  by (simp add: over_def)

lemma over_transparent_src: "alpha s = 0 \<Longrightarrow> over bl s d = d"
  by (simp add: over_def)

lemma alpha_opaque_of [simp]: "alpha (opaque_of p) = 255"
  by (cases p) simp

lemma alpha_over: "alpha d = 255 \<Longrightarrow> alpha (over bl s d) = 255"
  by (simp add: over_def)

lemma alpha_white [simp]: "alpha white = 255"
  by (simp add: white_def)

text \<open>The platform for evaluation on a translucent pixel, drawn on white.\<close>

lemma mixNearest_example:
  "over (blend samplePlatform) (RGBA 10 20 30 254) white = RGBA 11 21 31 255"
proof -
  have f: "\<lfloor>1169 / 102 :: rat\<rfloor> = 11" "\<lfloor>2185 / 102 :: rat\<rfloor> = 21" "\<lfloor>1067 / 34 :: rat\<rfloor> = 31"
    by (rule floor_unique; simp)+
  show ?thesis
    by (simp add: over_def samplePlatform_def white_def Let_def f)
qed

lemma width_paint [simp]: "width (paint pf src c) = width c"
  and height_paint [simp]: "height (paint pf src c) = height c"
  by (simp_all add: paint_def)

lemma bitmap_paint:
  "bitmap (paint pf src c) x y =
     (if x < width c \<and> y < height c
      then (case src x y of None \<Rightarrow> bitmap c x y | Some p \<Rightarrow> over (blend pf) p (bitmap c x y))
      else bitmap c x y)"
  by (simp add: paint_def)

text \<open>A width that the attribute holds is kept, without its fraction.\<close>

lemma toDimension_small:
  assumes "0 \<le> a" "a < 2 ^ 31"
  shows "toDimension d (Fin a) = nat \<lfloor>a\<rfloor>"
proof -
  have "0 \<le> \<lfloor>a\<rfloor>" using assms(1) by simp
  moreover have "\<lfloor>a\<rfloor> < 2 ^ 31" using assms(2) by (simp add: floor_less_iff)
  ultimately have "\<lfloor>a\<rfloor> mod 2 ^ 32 = \<lfloor>a\<rfloor>" "\<lfloor>a\<rfloor> < 2 ^ 31" by simp_all
  then show ?thesis using assms(1) by (simp add: toDimension.simps Let_def)
qed

lemma toDimension_of_nat:
  assumes "k < 2 ^ 31"
  shows "toDimension d (Fin (of_nat k)) = k"
proof -
  have "rat_of_nat k < rat_of_nat (2 ^ 31)" using assms by (simp only: of_nat_less_iff)
  then have "rat_of_nat k < 2 ^ 31" by simp
  then show ?thesis by (simp add: toDimension_small)
qed

text \<open>
  A canvas is never wider than the width it was asked for, when that is not negative;
  so \<open>fillRect\<close> covers the whole canvas.
\<close>

lemma toDimension_covered:
  assumes "0 \<le> a" "x < toDimension 300 (Fin a)"
  shows "of_nat x < a"
proof -
  define t where "t = \<lfloor>a\<rfloor> mod 2 ^ 32"
  have fl: "0 \<le> \<lfloor>a\<rfloor>" using assms(1) by simp
  then have t: "t \<le> \<lfloor>a\<rfloor>" unfolding t_def by (rule zmod_le_nonneg_dividend)
  have "int x < \<lfloor>a\<rfloor>"
  proof (cases "t < 2 ^ 31")
    case True
    with assms have "x < nat t" by (simp add: toDimension.simps Let_def t_def)
    with t show ?thesis by linarith
  next
    case False
    with assms have "x < 300" by (simp add: toDimension.simps Let_def t_def)
    moreover from False have "2147483648 \<le> t" by simp
    ultimately show ?thesis using t by linarith
  qed
  then show ?thesis by (simp add: less_floor_iff)
qed

lemma width_createCanvas [simp]: "width (createCanvas w h) = toDimension 300 w"
  and height_createCanvas [simp]: "height (createCanvas w h) = h"
  by (simp_all add: createCanvas_def)

lemma bitmap_createCanvas:
  assumes "0 \<le> a"
  shows "bitmap (createCanvas (Fin a) h) x y =
           (if x < toDimension 300 (Fin a) \<and> y < h then white else transparent)"
  using toDimension_covered [OF assms, of x] by (auto simp: createCanvas_def)

section \<open>Facts about the slicing loop\<close>

lemma of_nat_less_rat_iff: "(of_nat i < (n::rat)) = (i < nat \<lceil>n\<rceil>)"
proof -
  have "(i < nat \<lceil>n\<rceil>) = (int i < \<lceil>n\<rceil>)" by linarith
  also have "\<dots> = (of_int (int i) < n)" by (rule less_ceiling_iff)
  finally show ?thesis by simp
qed

text \<open>With a scaled canvas that has pixels, a round of the loop throws nothing.\<close>

lemma drawImage_slice_usable:
  assumes "width S \<noteq> 0" "height S \<noteq> 0"
  shows "drawImage_slice pf S i sliceWidth h (createCanvas sliceWidth h) = Inr (sliceCanvas pf S sliceWidth h i)"
proof -
  have "\<exists>c. drawImage_slice pf S i sliceWidth h (createCanvas sliceWidth h) = Inr c"
    using assms by (simp add: drawImage_slice_def split: number.split prod.split)
  then show ?thesis by (auto simp: sliceCanvas_def)
qed

lemma drawImage_slice_unusable:
  assumes "width S = 0 \<or> height S = 0"
  shows "drawImage_slice pf S 0 (Fin sw) h c = Inl InvalidStateError"
  using assms by (simp add: drawImage_slice_def)

text \<open>
  A finite bound \<open>n\<close> ends the loop after \<open>\<lceil>n\<rceil>\<close> rounds: started at \<open>i\<close>, it appends the
  slices \<open>i\<close> to \<open>\<lceil>n\<rceil> - 1\<close>.
\<close>

lemma sliceLoop_fin:
  assumes "width S \<noteq> 0" "height S \<noteq> 0"
  shows "sliceLoop pf S sliceWidth h (Fin n) i acc =
           Some (Inr (acc @ map (\<lambda>j. toDataURL (sliceCanvas pf S sliceWidth h j)) [i..<nat \<lceil>n\<rceil>]))"
proof (induction "nat \<lceil>n\<rceil> - i" arbitrary: i acc)
  case 0
  then have "\<not> i < nat \<lceil>n\<rceil>" by simp
  then show ?case
    by (subst sliceLoop.simps) (simp add: of_nat_less_rat_iff)
next
  case (Suc k)
  then have lt: "i < nat \<lceil>n\<rceil>" and k: "k = nat \<lceil>n\<rceil> - Suc i" by simp_all
  show ?case
    by (subst sliceLoop.simps)
      (simp add: of_nat_less_rat_iff lt drawImage_slice_usable [OF assms] Suc.hyps(1) [OF k]
        upt_conv_Cons [OF lt])
qed

text \<open>With a scaled canvas that has no pixels, the first round throws.\<close>

lemma sliceLoop_throws:
  assumes "width S = 0 \<or> height S = 0" "0 < n"
  shows "sliceLoop pf S (Fin sw) h (Fin n) 0 [] = Some (Inl InvalidStateError)"
  using assms by (subst sliceLoop.simps) (simp add: drawImage_slice_unusable)

lemma sliceCanvas_size [simp]:
  "width (sliceCanvas pf S sliceWidth h i) = toDimension 300 sliceWidth"
  "height (sliceCanvas pf S sliceWidth h i) = h"
  by (simp_all add: sliceCanvas_def drawImage_slice_def split: number.split prod.split sum.split)

lemma bitmap_sliceCanvas:
  assumes "width S \<noteq> 0" "height S \<noteq> 0" "x < sw" "y < h" "sw < 2 ^ 31" "i * sw < 2 ^ 53"
  shows "bitmap (sliceCanvas pf S (Fin (of_nat sw)) h i) x y =
           (if i * sw + x < width S \<and> y < height S then over (blend pf) (bitmap S (i * sw + x) y) white
            else white)"
proof -
  have m: "js_mul (Fin (of_nat i)) (Fin (of_nat sw)) = Fin (of_nat (i * sw))"
    using assms(6) by (rule js_mul_nat)
  have d: "toDimension 300 (Fin (of_nat sw)) = sw"
    using assms(5) by (rule toDimension_of_nat)
  have c: "bitmap (createCanvas (Fin (of_nat sw)) h) x y = white"
    using assms(3,4) by (simp add: bitmap_createCanvas d)
  have fl: "nat \<lfloor>rat_of_nat i * rat_of_nat sw\<rfloor> = i * sw"
    by (simp flip: of_nat_mult)
  show ?thesis
    using assms(1-4)
    by (simp add: sliceCanvas_def drawImage_slice_def m d c fl bitmap_paint del: js_mul.simps)
qed

lemma floor_divide_nat:
  fixes q :: rat
  assumes "0 < n"
  shows "\<lfloor>q / of_nat n\<rfloor> = \<lfloor>q\<rfloor> div int n"
proof (rule floor_unique)
  define k where "k = \<lfloor>q\<rfloor> div int n"
  have n: "(0::rat) < of_nat n" using assms by simp
  have dm: "\<lfloor>q\<rfloor> = k * int n + \<lfloor>q\<rfloor> mod int n"
    unfolding k_def by (simp add: mult.commute)
  have "0 \<le> \<lfloor>q\<rfloor> mod int n" using assms by simp
  with dm have "k * int n \<le> \<lfloor>q\<rfloor>" by linarith
  then have "of_int (k * int n) \<le> (of_int \<lfloor>q\<rfloor> :: rat)" by (simp only: of_int_le_iff)
  also have "\<dots> \<le> q" by simp
  finally have "of_int k * of_nat n \<le> q" by simp
  then show "of_int (\<lfloor>q\<rfloor> div int n) \<le> q / of_nat n"
    using n by (simp add: k_def pos_le_divide_eq)
  have "\<lfloor>q\<rfloor> < (k + 1) * int n"
  proof -
    have "\<lfloor>q\<rfloor> mod int n < int n" using assms by simp
    with dm have "\<lfloor>q\<rfloor> < k * int n + int n" by linarith
    then show ?thesis by (simp add: algebra_simps)
  qed
  then have "\<lfloor>q\<rfloor> + 1 \<le> (k + 1) * int n" by simp
  then have "of_int (\<lfloor>q\<rfloor> + 1) \<le> (of_int ((k + 1) * int n) :: rat)" by (simp only: of_int_le_iff)
  moreover have "q < of_int (\<lfloor>q\<rfloor> + 1)" by simp linarith
  ultimately have "q < of_int ((k + 1) * int n)" by (rule less_le_trans [rotated])
  then have "q < (of_int k + 1) * of_nat n" by simp
  then show "q / of_nat n < of_int (\<lfloor>q\<rfloor> div int n) + 1"
    using n by (simp add: k_def pos_divide_less_eq)
qed

lemma sliceWidth_nat:
  assumes "0 \<le> q" "1 \<le> n"
  shows "js_floor (js_div (Fin q) (Fin (of_nat n))) = Fin (of_nat (nat \<lfloor>q\<rfloor> div n))"
proof -
  have "\<lfloor>q / of_nat n\<rfloor> = \<lfloor>q\<rfloor> div int n"
    using assms(2) by (intro floor_divide_nat) simp
  also have "\<dots> = int (nat \<lfloor>q\<rfloor> div n)"
    using assms(1) by (simp add: zdiv_int)
  finally show ?thesis using assms(2) by simp
qed

lemma toDataURL_png: "0 < width c \<Longrightarrow> 0 < height c \<Longrightarrow> toDataURL c = PngData c"
  by (simp add: toDataURL_def)

section \<open>Facts about the vertical merge\<close>

lemma div_eq_iff_band:
  fixes h :: nat
  assumes "0 < h"
  shows "(y div h = i) = (i * h \<le> y \<and> y < (i + 1) * h)"
proof
  assume "y div h = i"
  then have "y = i * h + y mod h" by (metis mult.commute div_mult_mod_eq)
  moreover have "y mod h < h" using assms by simp
  ultimately show "i * h \<le> y \<and> y < (i + 1) * h" by simp
next
  assume "i * h \<le> y \<and> y < (i + 1) * h"
  then show "y div h = i"
    by (intro div_nat_eqI) (simp_all add: mult.commute)
qed

lemma row_in_band:
  fixes h :: nat
  shows "y div h = i \<Longrightarrow> y - i * h = y mod h"
  by (metis add_diff_cancel_left' mult.commute div_mult_mod_eq)

lemma even_band:
  fixes h :: nat
  shows "(i * h \<le> y \<and> y - i * h < h) = (0 < h \<and> y div h = i)"
proof (cases "0 < h")
  case True
  then show ?thesis by (auto simp: div_eq_iff_band)
qed simp

lemma odd_band:
  fixes h :: nat
  shows "(y < (i + 1) * h \<and> (i + 1) * h - 1 - y < h) = (0 < h \<and> y div h = i)"
proof (cases "0 < h")
  case True
  then show ?thesis by (auto simp: div_eq_iff_band)
qed simp

lemma odd_row:
  fixes h :: nat
  assumes "0 < h" "y div h = i"
  shows "(i + 1) * h - 1 - y = h - 1 - y mod h"
proof -
  have "y = i * h + y mod h" using assms by (metis mult.commute div_mult_mod_eq)
  then have "(i + 1) * h - 1 - y = (i * h + h) - 1 - (i * h + y mod h)" by simp
  also have "\<dots> = h - 1 - y mod h" by simp
  finally show ?thesis .
qed

text \<open>One \<open>onload\<close> handler fills the band of its slice and nothing else.\<close>

lemma drawImage_stacked_eq:
  assumes "height (sliceImgs ! i) = h"
  shows "drawImage_stacked pf (sliceImgs ! i) i h c = stacked pf sliceImgs h {i} c"
proof -
  have "bitmap (drawImage_stacked pf (sliceImgs ! i) i h c) x y = bitmap (stacked pf sliceImgs h {i} c) x y" for x y
  proof (cases "i mod 2 = 1")
    case True
    show ?thesis
      using assms True odd_band [of y i h] odd_row [of h y i]
      by (auto simp add: drawImage_stacked_def paint_def stacked_def)
  next
    case False
    show ?thesis
      using assms False even_band [of i h y] row_in_band [of y h i]
      by (auto simp add: drawImage_stacked_def paint_def stacked_def)
  qed
  then have "bitmap (drawImage_stacked pf (sliceImgs ! i) i h c) = bitmap (stacked pf sliceImgs h {i} c)"
    by (intro ext)
  then show ?thesis
    by (intro raster.equality) (simp_all add: drawImage_stacked_def paint_def stacked_def)
qed

text \<open>
  The handler of the backup component draws the same: all slices have the size of the
  first.
\<close>

lemma drawImage_stacked_sized_eq:
  assumes "width sliceImg = sliceWidth" "height sliceImg = sliceHeight"
  shows "drawImage_stacked_sized pf rs2 sliceImg i sliceWidth sliceHeight c =
           drawImage_stacked pf sliceImg i sliceHeight c"
  using assms by (simp add: drawImage_stacked_sized_def drawImage_stacked_def Let_def)

lemma stacked_empty: "stacked pf sliceImgs h {} c = c"
  by (simp add: stacked_def)

lemma stacked_insert:
  assumes "i \<notin> I"
  shows "stacked pf sliceImgs h I (stacked pf sliceImgs h {i} c) = stacked pf sliceImgs h (insert i I) c"
  using assms by (intro raster.equality ext) (auto simp add: stacked_def)

text \<open>
  The handlers of different slices write to different bands, so the canvas after all of
  them depends on the set of slices drawn and not on the order.
\<close>

lemma fold_drawImage_stacked:
  assumes "distinct is" "\<forall>i\<in>set is. height (sliceImgs ! i) = h"
  shows "fold (\<lambda>i. drawImage_stacked pf (sliceImgs ! i) i h) is c = stacked pf sliceImgs h (set is) c"
  using assms
proof (induction "is" arbitrary: c)
  case Nil
  then show ?case by (simp add: stacked_empty)
next
  case (Cons i "is")
  then show ?case by (simp add: drawImage_stacked_eq stacked_insert)
qed

lemma those_map_length:
  "those (map f xs) = Some ys \<Longrightarrow> length ys = length xs"
  by (induction xs arbitrary: ys) (auto split: option.splits)

lemma those_map_nth:
  "those (map f xs) = Some ys \<Longrightarrow> i < length xs \<Longrightarrow> f (xs ! i) = Some (ys ! i)"
proof (induction xs arbitrary: ys i)
  case Nil
  then show ?case by simp
next
  case (Cons x xs)
  then show ?case by (cases i) (auto split: option.splits)
qed

lemma those_map_Some:
  "\<forall>x\<in>set xs. f x = Some (g x) \<Longrightarrow> those (map f xs) = Some (map g xs)"
  by (induction xs) auto

lemma set_loadOrder [simp]: "set (loadOrder loadTime n) = {0..<n}"
  and distinct_loadOrder [simp]: "distinct (loadOrder loadTime n)"
  by (simp_all add: loadOrder_def)

lemma mergeVertical_eq:
  assumes "those (map loadImage slices) = Some sliceImgs" "\<forall>r\<in>set sliceImgs. height r = h"
  shows "mergeVertical pf loadTime slices sliceWidth h =
           Some (stacked pf sliceImgs h {0..<length slices} (createCanvas sliceWidth (h * length slices)))"
proof -
  have len: "length sliceImgs = length slices"
    using assms(1) by (rule those_map_length)
  have "\<forall>i\<in>set (loadOrder loadTime (length sliceImgs)). height (sliceImgs ! i) = h"
    using assms(2) by simp
  then show ?thesis
    using assms(1) len by (simp add: mergeVertical_def Let_def fold_drawImage_stacked)
qed

lemma sliceOfHeight_toDataURL: "height c = h \<Longrightarrow> sliceOfHeight h (toDataURL c)"
  by (simp add: sliceOfHeight_def toDataURL_def)

lemma height_drawImage_slice:
  "drawImage_slice pf S i sliceWidth h c = Inr c' \<Longrightarrow> height c' = height c"
  by (auto simp: drawImage_slice_def split: number.splits prod.splits if_splits)

lemma sliceLoop_heights:
  assumes "sliceLoop pf S sliceWidth h numSplits i acc = Some (Inr slices)"
    and "\<forall>u\<in>set acc. sliceOfHeight h u"
  shows "\<forall>u\<in>set slices. sliceOfHeight h u"
proof -
  define P where "P = (\<lambda>(pf::platform) (S::raster) (sw::number) (h::nat) (n::number) (i::nat) acc
        (res::exn + dataurl list).
      (\<forall>u\<in>set acc. sliceOfHeight h u) \<longrightarrow>
      (\<forall>slices. res = Inr slices \<longrightarrow> (\<forall>u\<in>set slices. sliceOfHeight h u)))"
  have "P pf S sliceWidth h numSplits i acc (Inr slices)"
  proof (rule sliceLoop.raw_induct [where P = P, OF _ assms(1)])
    fix f pf S sw h n i acc res
    assume IH: "\<And>pf S sw h n i acc res. f pf S sw h n i acc = Some res \<Longrightarrow> P pf S sw h n i acc res"
      and eq: "(if js_lt (Fin (rat_of_nat i)) n
                then case drawImage_slice pf S i sw h (createCanvas sw h) of
                       Inl e \<Rightarrow> Some (Inl e)
                     | Inr c \<Rightarrow> f pf S sw h n (i + 1) (acc @ [toDataURL c])
                else Some (Inr acc)) = Some res"
    show "P pf S sw h n i acc res"
    proof (cases "js_lt (Fin (of_nat i)) n")
      case False
      with eq show ?thesis by (auto simp: P_def)
    next
      case True
      show ?thesis
      proof (cases "drawImage_slice pf S i sw h (createCanvas sw h)")
        case (Inl e)
        with True eq show ?thesis by (auto simp: P_def)
      next
        case (Inr c)
        then have "height c = h" by (auto dest: height_drawImage_slice)
        then have "sliceOfHeight h (toDataURL c)" by (rule sliceOfHeight_toDataURL)
        moreover from True Inr eq
        have "f pf S sw h n (i + 1) (acc @ [toDataURL c]) = Some res" by simp
        then have "P pf S sw h n (i + 1) (acc @ [toDataURL c]) res" by (rule IH)
        ultimately show ?thesis by (auto simp: P_def)
      qed
    qed
  qed
  with assms(2) show ?thesis by (simp add: P_def)
qed

lemma mergeVertical_order:
  assumes "\<forall>u\<in>set slices. sliceOfHeight h u"
  shows "mergeVertical pf t1 slices sliceWidth h = mergeVertical pf t2 slices sliceWidth h"
proof (cases "those (map loadImage slices)")
  case None
  then show ?thesis by (simp add: mergeVertical_def)
next
  case (Some sliceImgs)
  have "height (sliceImgs ! i) = h" if "i < length sliceImgs" for i
  proof -
    have i: "i < length slices" using that those_map_length [OF Some] by simp
    from those_map_nth [OF Some i] have "loadImage (slices ! i) = Some (sliceImgs ! i)" .
    moreover have "sliceOfHeight h (slices ! i)" using assms i by simp
    ultimately show ?thesis by (cases "slices ! i") (simp_all add: sliceOfHeight_def)
  qed
  then have "\<forall>r\<in>set sliceImgs. height r = h" by (auto simp: in_set_conv_nth)
  from mergeVertical_eq [OF Some this] show ?thesis by simp
qed

lemma those_loadImage_png:
  assumes "\<forall>r\<in>set sliceImgs. 0 < width r \<and> 0 < height r"
  shows "those (map loadImage (map toDataURL sliceImgs)) = Some sliceImgs"
  using assms by (induction sliceImgs) (simp_all add: toDataURL_def)

text \<open>
  Painting on an opaque canvas leaves it opaque; so every canvas of the pipeline is, when
  the width it was created with is not negative.
\<close>

lemma paint_opaque:
  assumes "\<And>x y. x < width c \<Longrightarrow> y < height c \<Longrightarrow> alpha (bitmap c x y) = 255"
    and "x < width c" "y < height c"
  shows "alpha (bitmap (paint pf src c) x y) = 255"
  using assms by (simp add: bitmap_paint alpha_over split: option.split)

lemma createCanvas_opaque:
  "0 \<le> a \<Longrightarrow> x < toDimension 300 (Fin a) \<Longrightarrow> y < h \<Longrightarrow> alpha (bitmap (createCanvas (Fin a) h) x y) = 255"
  by (simp add: bitmap_createCanvas)

lemma sliceCanvas_opaque:
  assumes "0 \<le> a" "x < toDimension 300 (Fin a)" "y < h"
  shows "alpha (bitmap (sliceCanvas pf S (Fin a) h i) x y) = 255"
  using assms
  by (auto simp: sliceCanvas_def drawImage_slice_def createCanvas_opaque simp del: js_mul.simps
      intro!: paint_opaque split: number.split prod.split sum.split)

lemma drawImage_stacked_dims [simp]:
  "width (drawImage_stacked pf sliceImg i h c) = width c"
  "height (drawImage_stacked pf sliceImg i h c) = height c"
  by (simp_all add: drawImage_stacked_def)

lemma fold_drawImage_stacked_dims [simp]:
  "width (fold (\<lambda>i. drawImage_stacked pf (sliceImgs ! i) i h) is c) = width c"
  "height (fold (\<lambda>i. drawImage_stacked pf (sliceImgs ! i) i h) is c) = height c"
  by (induction "is" arbitrary: c) simp_all

lemma fold_drawImage_stacked_opaque:
  assumes "\<And>x y. x < width c \<Longrightarrow> y < height c \<Longrightarrow> alpha (bitmap c x y) = 255"
  shows "\<forall>x<width c. \<forall>y<height c.
           alpha (bitmap (fold (\<lambda>i. drawImage_stacked pf (sliceImgs ! i) i h) is c) x y) = 255"
  using assms
proof (induction "is" arbitrary: c)
  case Nil
  then show ?case by simp
next
  case (Cons i "is")
  have "alpha (bitmap (drawImage_stacked pf (sliceImgs ! i) i h c) x y) = 255"
    if "x < width c" "y < height c" for x y
    using that Cons.prems by (simp add: drawImage_stacked_def paint_opaque)
  then have "alpha (bitmap (drawImage_stacked pf (sliceImgs ! i) i h c) x y) = 255"
    if "x < width (drawImage_stacked pf (sliceImgs ! i) i h c)"
       "y < height (drawImage_stacked pf (sliceImgs ! i) i h c)" for x y
    using that by simp
  from Cons.IH [OF this] show ?case by simp
qed


lemma mergeVertical_opaque:
  assumes "mergeVertical pf loadTime slices (Fin a) h = Some V" "0 \<le> a" "x < width V" "y < height V"
  shows "alpha (bitmap V x y) = 255"
proof -
  define c0 where "c0 = createCanvas (Fin a) (h * length slices)"
  have c0: "alpha (bitmap c0 x y) = 255" if "x < width c0" "y < height c0" for x y
    using that assms(2) by (simp add: c0_def createCanvas_opaque)
  from assms(1) obtain sliceImgs where
    V: "V = fold (\<lambda>i. drawImage_stacked pf (sliceImgs ! i) i h) (loadOrder loadTime (length sliceImgs)) c0"
    by (auto simp: mergeVertical_def Let_def c0_def split: option.splits)
  from fold_drawImage_stacked_opaque [OF c0, of pf sliceImgs h "loadOrder loadTime (length sliceImgs)"]
  show ?thesis using assms(3,4) unfolding V by simp
qed

section \<open>Facts about the horizontal repetition\<close>

text \<open>One round of the loop fills the columns of its copy and nothing else.\<close>

lemma drawImage_tile_eq:
  assumes "width V = w" "0 < w" "0 < height V" "i * w < 2 ^ 53"
  shows "drawImage_tile pf V i (Fin (of_nat w)) c = Inr (tiled pf V w {i} c)"
proof -
  have m: "js_mul (Fin (of_nat i)) (Fin (of_nat w)) = Fin (of_nat (i * w))"
    using assms(4) by (rule js_mul_nat)
  have aux: "(int m \<le> int x \<and> int x - int m < int w) = (m \<le> x \<and> x < m + w)" for m x
    by linarith
  have band: "(int (i * w) \<le> int x \<and> int x - int (i * w) < int w) = (x div w = i)" for x
    unfolding aux using div_eq_iff_band [OF assms(2), of x i] by (simp add: add.commute)
  have aux2: "nat (int x - int m) = x - m" for m x
    by linarith
  have col: "nat (int x - int (i * w)) = x mod w" if "x div w = i" for x
    unfolding aux2 using row_in_band [OF that] .
  have "bitmap (paint pf (\<lambda>x y. if int (i * w) \<le> int x \<and> int x - int (i * w) < int w \<and> y < height V
                                then Some (bitmap V (nat (int x - int (i * w))) y) else None) c) x y
        = bitmap (tiled pf V w {i} c) x y" for x y
    using assms(2) col [of x] band [of x]
    by (auto simp add: bitmap_paint tiled_def simp del: of_nat_mult)
  then have "paint pf (\<lambda>x y. if int (i * w) \<le> int x \<and> int x - int (i * w) < int w \<and> y < height V
                                then Some (bitmap V (nat (int x - int (i * w))) y) else None) c
        = tiled pf V w {i} c"
    by (intro raster.equality ext) (simp_all add: tiled_def)
  with assms(1-3) show ?thesis
    by (simp add: drawImage_tile_def m del: of_nat_mult js_mul.simps cong: if_cong)
qed

lemma tiled_empty: "tiled pf V w {} c = c"
  by (simp add: tiled_def)

lemma tiled_insert:
  assumes "i \<notin> K"
  shows "tiled pf V w K (tiled pf V w {i} c) = tiled pf V w (insert i K) c"
  using assms by (intro raster.equality ext) (auto simp add: tiled_def)

lemma repeatLoop_fin:
  assumes "width V = w" "0 < w" "0 < height V" "nat \<lceil>r\<rceil> * w \<le> 2 ^ 53"
  shows "repeatLoop pf V (Fin (of_nat w)) (Fin r) i c = Some (Inr (tiled pf V w {i..<nat \<lceil>r\<rceil>} c))"
proof (induction "nat \<lceil>r\<rceil> - i" arbitrary: i c)
  case 0
  then have "\<not> i < nat \<lceil>r\<rceil>" by simp
  then show ?case
    by (subst repeatLoop.simps) (simp add: of_nat_less_rat_iff tiled_empty)
next
  case (Suc k)
  then have lt: "i < nat \<lceil>r\<rceil>" and k: "k = nat \<lceil>r\<rceil> - Suc i" by simp_all
  have "i * w < nat \<lceil>r\<rceil> * w" using lt assms(2) by simp
  then have small: "i * w < 2 ^ 53" using assms(4) by (rule less_le_trans)
  have "i \<notin> {Suc i..<nat \<lceil>r\<rceil>}" by simp
  moreover have "insert i {Suc i..<nat \<lceil>r\<rceil>} = {i..<nat \<lceil>r\<rceil>}" using lt by auto
  ultimately have "tiled pf V w {Suc i..<nat \<lceil>r\<rceil>} (tiled pf V w {i} c) = tiled pf V w {i..<nat \<lceil>r\<rceil>} c"
    by (simp add: tiled_insert)
  then show ?case
    by (subst repeatLoop.simps)
      (simp add: of_nat_less_rat_iff lt drawImage_tile_eq [OF assms(1-3) small] Suc.hyps(1) [OF k])
qed

section \<open>Facts about the scaled canvas\<close>

lemma scaleStep_dims [simp]:
  "width (scaleStep pf img scaledWidth) = toDimension 300 scaledWidth"
  "height (scaleStep pf img scaledWidth) = height img"
  by (simp_all add: scaleStep_def drawImage_scaled_def split: number.splits)


section \<open>Facts about whole runs\<close>

lemma bitmap_scaleStep_same:
  assumes "x < width img" "y < height img" "width img < 2 ^ 31"
  shows "bitmap (scaleStep pf img (Fin (of_nat (width img)))) x y = over (blend pf) (bitmap img x y) white"
proof -
  have "rat_of_nat x + 1 \<le> rat_of_nat (width img)"
    using assms(1) by (simp flip: of_nat_Suc)
  with assms show ?thesis
    by (simp add: scaleStep_def drawImage_scaled_def bitmap_paint bitmap_createCanvas toDimension_of_nat)
qed

text \<open>
  With all three parameters 1, the run downloads the source as it is drawn on white.
\<close>

lemma onload_unit:
  assumes "0 < width img" "0 < height img" "width img < 2 ^ 31"
    and "field st ''scale'' = Fin 1" "field st ''numSplits'' = Fin 1"
    and "field st ''horizontalRepeat'' = Fin 1"
  shows "\<exists>out. onload pf loadTime img st = Download (PngData out)
           \<and> width out = width img \<and> height out = height img
           \<and> (\<forall>x<width img. \<forall>y<height img. bitmap out x y = over (blend pf) (bitmap img x y) white)"
proof -
  define w where "w = width img"
  define h where "h = height img"
  define S where "S = scaleStep pf img (Fin (of_nat w))"
  define slice where "slice = sliceCanvas pf S (Fin (of_nat w)) h 0"
  define V where "V = stacked pf [slice] h {0..<1} (createCanvas (Fin (of_nat w)) h)"
  define out where "out = tiled pf V w {0..<1} (createCanvas (Fin (of_nat w)) h)"
  have pos: "0 < w" "0 < h" and w31: "w < 2 ^ 31"
    using assms(1-3) by (simp_all add: w_def h_def)
  have dim: "toDimension 300 (Fin (of_nat w)) = w"
    using w31 by (rule toDimension_of_nat)
  have "w < 2 ^ 53" using w31 by simp
  then have rd: "round_double (rat_of_nat w) = Fin (rat_of_nat w)"
    by (rule round_double_of_nat)
  have S: "width S = w" "height S = h" by (simp_all add: S_def h_def dim)
  have usable: "width S \<noteq> 0" "height S \<noteq> 0" using S pos by simp_all
  have slices: "sliceLoop pf S (Fin (of_nat w)) h (Fin 1) 0 [] = Some (Inr [PngData slice])"
    using sliceLoop_fin [OF usable, of pf "Fin (of_nat w)" h 1 0 "[]"] pos
    by (simp add: slice_def toDataURL_def dim)
  have "those (map loadImage [PngData slice]) = Some [slice]" by simp
  moreover have "\<forall>r\<in>set [slice]. height r = h" by (simp add: slice_def)
  ultimately have merge: "mergeVertical pf loadTime [PngData slice] (Fin (of_nat w)) h = Some V"
    using mergeVertical_eq [of "[PngData slice]" "[slice]" h pf loadTime "Fin (of_nat w)"]
    by (simp add: V_def)
  have V: "width V = w" "height V = h" by (simp_all add: V_def stacked_def dim)
  have "nat \<lceil>1::rat\<rceil> * w \<le> 2 ^ 53" using w31 by simp
  from repeatLoop_fin [OF V(1) pos(1) _ this, of pf 0 "createCanvas (Fin (of_nat w)) h"]
  have rep: "repeatStep pf V (Fin (of_nat w)) (Fin 1) h = Some (Inr out)"
    using V(2) pos(2) by (simp add: repeatStep_def out_def rd)
  have out: "width out = w" "height out = h" by (simp_all add: out_def tiled_def dim)
  have run: "onload pf loadTime img st = Download (PngData out)"
    using assms(4-6) slices merge rep out pos
    by (simp add: onload_def Let_def toDataURL_def rd flip: w_def h_def S_def)
  have px: "bitmap out x y = over (blend pf) (bitmap img x y) white" if "x < w" "y < h" for x y
  proof -
    have s: "bitmap S x y = over (blend pf) (bitmap img x y) white"
      using that w31 unfolding S_def w_def h_def by (intro bitmap_scaleStep_same)
    then have "alpha (bitmap S x y) = 255" by (simp add: alpha_over)
    then have sl: "bitmap slice x y = bitmap S x y"
      using bitmap_sliceCanvas [OF usable that w31, of 0 pf] that S
      by (simp add: slice_def over_opaque_src)
    have "alpha (bitmap slice x y) = 255"
      using that unfolding slice_def by (intro sliceCanvas_opaque) (simp_all add: dim)
    then have v: "bitmap V x y = bitmap slice x y"
      using that by (simp add: V_def stacked_def slice_def bitmap_createCanvas over_opaque_src dim)
    have "alpha (bitmap V x y) = 255"
      using that V by (intro mergeVertical_opaque [OF merge]) simp_all
    then have "bitmap out x y = bitmap V x y"
      using that V by (simp add: out_def tiled_def bitmap_createCanvas over_opaque_src dim)
    with v sl s show ?thesis by simp
  qed
  from run out px show ?thesis unfolding w_def h_def by blast
qed

text \<open>
  The double nearest to a number that is not negative is a finite number that is not
  negative, or positive infinity.
\<close>

lemma round_double_cases:
  assumes "0 \<le> x"
  shows "round_double x = PosInf \<or> (\<exists>p\<ge>0. round_double x = Fin p)"
proof (cases "x = 0")
  case True
  then show ?thesis by simp
next
  case False
  with assms have x: "0 < x" "\<bar>x\<bar> = x" by simp_all
  define y where "y = of_int (round_half_even (x / quantum x)) * quantum x"
  have r: "round_double x = (if 2 ^ 1024 \<le> y then PosInf else Fin y)"
    unfolding round_double_def Let_def x(2) y_def [symmetric] using False x(1)
    by (simp only: if_False if_True)
  show ?thesis
  proof (cases "2 ^ 1024 \<le> y")
    case True
    with r have "round_double x = PosInf" by (simp only: if_True)
    then show ?thesis ..
  next
    case False
    with r have "round_double x = Fin y" by (simp only: if_False)
    with assms show ?thesis by (auto dest: round_double_nonneg)
  qed
qed

lemma sliceWidth_zero:
  assumes "0 \<le> q" "q < n"
  shows "js_floor (js_div (Fin q) (Fin n)) = Fin 0"
proof -
  have "0 \<le> q / n" "q / n < 1" using assms by simp_all
  then have "\<lfloor>q / n\<rfloor> = 0" by (intro floor_unique) simp_all
  with assms show ?thesis by simp
qed

text \<open>
  When \<open>numSplits\<close> exceeds the scaled width, as the program computes it from a positive
  scale, \<open>sliceWidth\<close> is 0; and \<open>numSplits\<close> is positive then.
\<close>

lemma sliceWidth_zero_exceeds:
  assumes "js_lt (Fin 0) scale" "js_lt (js_mul (Fin (of_nat w)) scale) numSplits"
  shows "js_floor (js_div (js_mul (Fin (of_nat w)) scale) numSplits) = Fin 0"
    and "js_lt (Fin 0) numSplits"
proof -
  from assms(1) obtain s where s: "scale = Fin s \<and> 0 < s \<or> scale = PosInf"
    by (cases scale) simp_all
  have nopos: "\<not> js_lt PosInf b" for b by (cases b) simp_all
  have nonan: "\<not> js_lt NaN b" for b by simp
  have fin: "\<exists>p\<ge>0. js_mul (Fin (of_nat w)) scale = Fin p"
  proof -
    from s show ?thesis
    proof
      assume sc: "scale = Fin s \<and> 0 < s"
      then have "0 \<le> rat_of_nat w * s" by simp
      from round_double_cases [OF this] show ?thesis
      proof
        assume "round_double (rat_of_nat w * s) = PosInf"
        with assms(2) sc nopos show ?thesis by simp
      next
        assume "\<exists>p\<ge>0. round_double (rat_of_nat w * s) = Fin p"
        with sc show ?thesis by simp
      qed
    next
      assume "scale = PosInf"
      with assms(2) nopos nonan show ?thesis by (simp split: if_splits)
    qed
  qed
  then obtain p where p: "0 \<le> p" "js_mul (Fin (of_nat w)) scale = Fin p" by blast
  from assms(2) have n: "(\<exists>n. numSplits = Fin n \<and> p < n) \<or> numSplits = PosInf"
    unfolding p(2) by (cases numSplits) simp_all
  then show "js_floor (js_div (js_mul (Fin (of_nat w)) scale) numSplits) = Fin 0"
    unfolding p(2)
  proof
    assume "\<exists>n. numSplits = Fin n \<and> p < n"
    then obtain n where "numSplits = Fin n" "p < n" by blast
    with p(1) show "js_floor (js_div (Fin p) numSplits) = Fin 0"
      by (simp only: sliceWidth_zero)
  next
    assume "numSplits = PosInf"
    then show "js_floor (js_div (Fin p) numSplits) = Fin 0" by simp
  qed
  from n p(1) show "js_lt (Fin 0) numSplits" by auto
qed

text \<open>
  With a slice width of 0 every slice canvas is empty, so a loop that returns slices
  returns only \<open>data:,\<close>; and the one exception \<open>drawImage\<close> throws is
  \<open>InvalidStateError\<close>. This holds for an infinite bound too: it says what the loop
  returns if it returns.
\<close>

lemma drawImage_slice_throws:
  "drawImage_slice pf S i sliceWidth h c = Inl e \<Longrightarrow> e = InvalidStateError"
  by (auto simp: drawImage_slice_def simp del: js_mul.simps split: number.splits prod.splits if_splits)

lemma width_drawImage_slice:
  "drawImage_slice pf S i sliceWidth h c = Inr c' \<Longrightarrow> width c' = width c"
  by (auto simp: drawImage_slice_def simp del: js_mul.simps split: number.splits prod.splits if_splits)

lemma toDimension_0 [simp]: "toDimension d (Fin 0) = 0"
  by (simp add: toDimension.simps)

lemma sliceLoop_zero:
  assumes "sliceLoop pf S (Fin 0) h numSplits i acc = Some res"
  shows "(\<forall>e. res = Inl e \<longrightarrow> e = InvalidStateError)
       \<and> (\<forall>slices. res = Inr slices \<longrightarrow> EmptyData \<in> set acc \<or> js_lt (Fin (of_nat i)) numSplits \<longrightarrow>
             EmptyData \<in> set slices)"
proof -
  define P where "P = (\<lambda>(pf::platform) (S::raster) (sw::number) (h::nat) (n::number) (i::nat) acc
        (res::exn + dataurl list).
      sw = Fin 0 \<longrightarrow>
      (\<forall>e. res = Inl e \<longrightarrow> e = InvalidStateError)
      \<and> (\<forall>slices. res = Inr slices \<longrightarrow> EmptyData \<in> set acc \<or> js_lt (Fin (of_nat i)) n \<longrightarrow>
            EmptyData \<in> set slices))"
  have "P pf S (Fin 0) h numSplits i acc res"
  proof (rule sliceLoop.raw_induct [where P = P, OF _ assms(1)])
    fix f pf S sw h n i acc res
    assume IH: "\<And>pf S sw h n i acc res. f pf S sw h n i acc = Some res \<Longrightarrow> P pf S sw h n i acc res"
      and eq: "(if js_lt (Fin (rat_of_nat i)) n
                then case drawImage_slice pf S i sw h (createCanvas sw h) of
                       Inl e \<Rightarrow> Some (Inl e)
                     | Inr c \<Rightarrow> f pf S sw h n (i + 1) (acc @ [toDataURL c])
                else Some (Inr acc)) = Some res"
    show "P pf S sw h n i acc res"
    proof (cases "js_lt (Fin (of_nat i)) n")
      case False
      with eq show ?thesis by (auto simp: P_def)
    next
      case True
      show ?thesis
      proof (cases "drawImage_slice pf S i sw h (createCanvas sw h)")
        case (Inl e)
        then have "e = InvalidStateError" by (rule drawImage_slice_throws)
        with Inl True eq show ?thesis by (auto simp: P_def)
      next
        case (Inr c)
        then have "width c = toDimension 300 sw" by (auto dest: width_drawImage_slice)
        then have "sw = Fin 0 \<longrightarrow> toDataURL c = EmptyData" by (simp add: toDataURL_def)
        moreover from True Inr eq
        have "f pf S sw h n (i + 1) (acc @ [toDataURL c]) = Some res" by simp
        then have "P pf S sw h n (i + 1) (acc @ [toDataURL c]) res" by (rule IH)
        ultimately show ?thesis by (auto simp: P_def)
      qed
    qed
  qed
  then show ?thesis by (simp add: P_def)
qed

lemma those_loadImage_empty:
  "EmptyData \<in> set slices \<Longrightarrow> those (map loadImage slices) = None"
  by (induction slices) (auto split: option.splits)

text \<open>
  So a run with a positive \<open>numSplits\<close> and a slice width of 0 ends in one of three ways,
  none of them a download, none of them \<open>InvalidParameter\<close>.
\<close>

lemma onload_zero_sliceWidth:
  assumes "js_lt (Fin 0) (field st ''numSplits'')"
    and "js_floor (js_div (js_mul (Fin (of_nat (width img))) (field st ''scale''))
           (field st ''numSplits'')) = Fin 0"
  shows "onload pf loadTime img st = Uncaught InvalidStateError
       \<or> onload pf loadTime img st = Stalled
       \<or> onload pf loadTime img st = Diverges"
proof -
  define S where "S = scaleStep pf img (js_mul (Fin (of_nat (width img))) (field st ''scale''))"
  show ?thesis
  proof (cases "sliceLoop pf S (Fin 0) (height img) (field st ''numSplits'') 0 []")
    case None
    then show ?thesis by (simp add: onload_def Let_def assms(2) S_def)
  next
    case (Some res)
    note inv = sliceLoop_zero [OF Some]
    show ?thesis
    proof (cases res)
      case (Inl e)
      with inv have "e = InvalidStateError" by simp
      with Some Inl show ?thesis by (simp add: onload_def Let_def assms(2) S_def)
    next
      case (Inr slices)
      with inv assms(1) have "EmptyData \<in> set slices" by simp
      then have "those (map loadImage slices) = None" by (rule those_loadImage_empty)
      then have "mergeVertical pf loadTime slices (Fin 0) (height img) = None"
        by (simp add: mergeVertical_def Let_def)
      with Some Inr show ?thesis by (simp add: onload_def Let_def assms(2) S_def)
    qed
  qed
qed

text \<open>
  With a finite \<open>numSplits\<close> and a scaled canvas that has pixels the loop ends, and the run
  stalls.
\<close>

lemma onload_stalls:
  assumes "js_lt (Fin 0) (field st ''numSplits'')" "field st ''numSplits'' = Fin n"
    and "js_floor (js_div (js_mul (Fin (of_nat (width img))) (field st ''scale''))
           (field st ''numSplits'')) = Fin 0"
    and "0 < width (scaleStep pf img (js_mul (Fin (of_nat (width img))) (field st ''scale'')))"
    and "0 < height img"
  shows "onload pf loadTime img st = Stalled"
proof -
  define S where "S = scaleStep pf img (js_mul (Fin (of_nat (width img))) (field st ''scale''))"
  have usable: "width S \<noteq> 0" "height S \<noteq> 0" using assms(4,5) by (simp_all add: S_def)
  from sliceLoop_fin [OF usable, of pf "Fin 0" "height img" n 0 "[]"]
  obtain slices where
    run: "sliceLoop pf S (Fin 0) (height img) (field st ''numSplits'') 0 [] = Some (Inr slices)"
    by (simp add: assms(2))
  from sliceLoop_zero [OF run] assms(1) have "EmptyData \<in> set slices" by simp
  then have "those (map loadImage slices) = None" by (rule those_loadImage_empty)
  then have "mergeVertical pf loadTime slices (Fin 0) (height img) = None"
    by (simp add: mergeVertical_def Let_def)
  with run show ?thesis by (simp add: onload_def Let_def assms(3) S_def)
qed

text \<open>
  A regular run: integer \<open>numSplits\<close> and \<open>horizontalRepeat\<close>, slices at least one pixel
  wide, and widths that a canvas holds. It ends in a download of
  \<open>sliceWidth * horizontalRepeat\<close> by \<open>img.height * numSplits\<close> pixels.
\<close>

lemma onload_regular:
  assumes "0 < height img"
    and "field st ''scale'' = Fin s"
    and "js_mul (Fin (of_nat (width img))) (Fin s) = Fin q" "q < 2 ^ 31"
    and "field st ''numSplits'' = Fin (of_nat n)" "1 \<le> n"
    and "field st ''horizontalRepeat'' = Fin (of_nat c)" "1 \<le> c"
    and "1 \<le> nat \<lfloor>q\<rfloor> div n" "(nat \<lfloor>q\<rfloor> div n) * c < 2 ^ 31"
  shows "\<exists>out. onload pf loadTime img st = Download (PngData out)
           \<and> width out = (nat \<lfloor>q\<rfloor> div n) * c
           \<and> height out = height img * n"
proof -
  define h where "h = height img"
  define S where "S = scaleStep pf img (Fin q)"
  define w where "w = nat \<lfloor>q\<rfloor> div n"
  define sliceImgs where "sliceImgs = map (sliceCanvas pf S (Fin (of_nat w)) h) [0..<n]"
  define V where "V = stacked pf sliceImgs h {0..<n} (createCanvas (Fin (of_nat w)) (h * n))"
  define out where "out = tiled pf V w {0..<c} (createCanvas (Fin (of_nat (w * c))) (h * n))"
  have q0: "0 \<le> q"
  proof (rule ccontr)
    assume "\<not> 0 \<le> q"
    then have "nat \<lfloor>q\<rfloor> = 0" by (simp add: floor_le_zero)
    with assms(9) show False by simp
  qed
  have w1: "0 < w" using assms(9) by (simp add: w_def)
  have h1: "0 < h" using assms(1) by (simp add: h_def)
  have wc: "w * c < 2 ^ 31" using assms(10) by (simp add: w_def)
  have "w * 1 \<le> w * c" using assms(8) by (intro mult_le_mono2)
  then have "w \<le> w * c" by (simp only: mult_1_right)
  then have w31: "w < 2 ^ 31" using wc by (rule le_less_trans)
  have dim: "toDimension 300 (Fin (of_nat w)) = w"
    using w31 by (rule toDimension_of_nat)
  have dimq: "toDimension 300 (Fin q) = nat \<lfloor>q\<rfloor>"
    using q0 assms(4) by (rule toDimension_small)
  have "w * c < 2 ^ 53" using wc by simp
  then have prod: "js_mul (Fin (of_nat w)) (Fin (of_nat c)) = Fin (of_nat (w * c))"
    by (rule js_mul_nat)
  have dimwc: "toDimension 300 (Fin (of_nat (w * c))) = w * c"
    using wc by (rule toDimension_of_nat)
  have sliceWidth: "js_floor (js_div (Fin q) (Fin (of_nat n))) = Fin (of_nat w)"
    unfolding w_def using q0 assms(6) by (rule sliceWidth_nat)
  have "n * w \<le> nat \<lfloor>q\<rfloor>" unfolding w_def by (simp add: mult.commute)
  moreover have "0 < n * w" using w1 assms(6) by simp
  ultimately have "0 < nat \<lfloor>q\<rfloor>" by (rule less_le_trans [rotated])
  then have usable: "width S \<noteq> 0" "height S \<noteq> 0"
    using assms(1) by (simp_all add: S_def dimq)
  have slices: "sliceLoop pf S (Fin (of_nat w)) h (Fin (of_nat n)) 0 [] = Some (Inr (map toDataURL sliceImgs))"
    using sliceLoop_fin [OF usable, of pf "Fin (of_nat w)" h "of_nat n" 0 "[]"]
    by (simp add: sliceImgs_def comp_def)
  have "those (map loadImage (map toDataURL sliceImgs)) = Some sliceImgs"
    using w1 h1 by (intro those_loadImage_png) (simp add: sliceImgs_def dim)
  moreover have "\<forall>r\<in>set sliceImgs. height r = h" by (simp add: sliceImgs_def)
  ultimately have merge: "mergeVertical pf loadTime (map toDataURL sliceImgs) (Fin (of_nat w)) h = Some V"
    using mergeVertical_eq [of "map toDataURL sliceImgs" sliceImgs h pf loadTime "Fin (of_nat w)"]
    by (simp add: V_def sliceImgs_def)
  have V: "width V = w" "height V = h * n" by (simp_all add: V_def stacked_def dim)
  have "0 < h * n" using h1 assms(6) by simp
  then have Vh: "0 < height V" using V by simp
  have "nat \<lceil>rat_of_nat c\<rceil> * w \<le> 2 ^ 53" using wc by (simp add: mult.commute)
  from repeatLoop_fin [OF V(1) w1 Vh this, of pf 0 "createCanvas (Fin (of_nat (w * c))) (h * n)"]
  have rep: "repeatStep pf V (Fin (of_nat w)) (Fin (of_nat c)) (h * n) = Some (Inr out)"
    by (simp add: repeatStep_def out_def prod del: js_mul.simps of_nat_mult)
  have out: "width out = w * c" "height out = h * n"
    by (simp_all add: out_def tiled_def dimwc del: of_nat_mult)
  have "0 < w * c" using w1 assms(8) by simp
  then have png: "toDataURL out = PngData out"
    using out \<open>0 < h * n\<close> by (simp add: toDataURL_def)
  have "onload pf loadTime img st = Download (PngData out)"
    using assms(2,3,5,7) sliceWidth slices merge rep png
    by (simp add: onload_def Let_def sliceImgs_def del: js_mul.simps flip: h_def S_def)
  with out show ?thesis unfolding w_def h_def by blast
qed

text \<open>
  The example of the specification at a smaller size: 4 by 2 pixels, scale 2, 4 splits,
  3 repeats give slices of 2 by 2, a composite of 2 by 8 and an output of 6 by 8.
\<close>

lemma pipeline_example:
  "\<exists>out. processAndDownload samplePlatform (\<lambda>i. i) (Some sampleImage) sampleState = Download (PngData out)
      \<and> width out = 6 \<and> height out = 8"
proof -
  have "js_mul (Fin (of_nat (width sampleImage))) (Fin 2) = Fin 8"
    using js_mul_nat [of 4 2] by (simp add: sampleImage_def)
  moreover have "\<lfloor>8::rat\<rfloor> = 8" by simp
  ultimately have "0 < height sampleImage" "field sampleState ''scale'' = Fin 2"
    "js_mul (Fin (of_nat (width sampleImage))) (Fin 2) = Fin 8" "(8::rat) < 2 ^ 31"
    "field sampleState ''numSplits'' = Fin (of_nat 4)" "1 \<le> (4::nat)"
    "field sampleState ''horizontalRepeat'' = Fin (of_nat 3)" "1 \<le> (3::nat)"
    "1 \<le> nat \<lfloor>8::rat\<rfloor> div 4" "(nat \<lfloor>8::rat\<rfloor> div 4) * 3 < 2 ^ 31"
    by (simp_all add: sampleImage_def sampleState_def field_def)
  from onload_regular [OF this, of samplePlatform "\<lambda>i. i"]
  show ?thesis by (simp add: processAndDownload_def sampleImage_def)
qed

text \<open>
  The width is taken from the product as the machine computes it: 10 times the double
  nearest to 0.7 is the double 7 (the exact product is below 7), so 7 splits of an image
  of 10 pixels scaled by 0.7 give slices one pixel wide, and the run downloads.
\<close>

lemma pipeline_example_0_7:
  "\<exists>out. processAndDownload samplePlatform (\<lambda>i. i) (Some wideImage) fineState = Download (PngData out)
      \<and> width out = 1 \<and> height out = 7"
proof -
  have "js_mul (Fin (of_nat (width wideImage))) (Fin double_0_7) = Fin 7"
    using round_double_0_7 by (simp add: wideImage_def)
  moreover have "\<lfloor>7::rat\<rfloor> = 7" by simp
  ultimately have "0 < height wideImage" "field fineState ''scale'' = Fin double_0_7"
    "js_mul (Fin (of_nat (width wideImage))) (Fin double_0_7) = Fin 7" "(7::rat) < 2 ^ 31"
    "field fineState ''numSplits'' = Fin (of_nat 7)" "1 \<le> (7::nat)"
    "field fineState ''horizontalRepeat'' = Fin (of_nat 1)" "1 \<le> (1::nat)"
    "1 \<le> nat \<lfloor>7::rat\<rfloor> div 7" "(nat \<lfloor>7::rat\<rfloor> div 7) * 1 < 2 ^ 31"
    by (simp_all add: wideImage_def fineState_def field_def del: js_mul.simps)
  from onload_regular [OF this, of samplePlatform "\<lambda>i. i"]
  show ?thesis by (simp add: processAndDownload_def wideImage_def)
qed

section \<open>Determinism\<close>

text \<open>
  C8. The run is a function of the source image and the three parameters. The one thing
  in the callback that these do not fix is the order in which the slice images finish
  loading and their handlers draw on the shared canvas; the outcome, and with it the
  downloaded PNG, is the same for every such order. Nothing else is read: no clock, no
  random number, no state besides the captured \<open>editorState\<close>.
\<close>

theorem processAndDownload_load_order:
  "processAndDownload pf t1 imageFile editorState = processAndDownload pf t2 imageFile editorState"
proof (cases imageFile)
  case None
  then show ?thesis by (simp add: processAndDownload_def)
next
  case (Some img)
  define S where "S = scaleStep pf img (js_mul (Fin (of_nat (width img))) (field editorState ''scale''))"
  define sw where "sw = js_floor (js_div (js_mul (Fin (of_nat (width img))) (field editorState ''scale'')) (field editorState ''numSplits''))"
  have "onload pf t1 img editorState = onload pf t2 img editorState"
  proof (cases "sliceLoop pf S sw (height img) (field editorState ''numSplits'') 0 []")
    case None
    then show ?thesis by (simp add: onload_def Let_def S_def sw_def)
  next
    case (Some res)
    show ?thesis
    proof (cases res)
      case (Inl e)
      with Some show ?thesis by (simp add: onload_def Let_def S_def sw_def)
    next
      case (Inr slices)
      with Some have "\<forall>u\<in>set slices. sliceOfHeight (height img) u"
        by (auto dest: sliceLoop_heights)
      then have "mergeVertical pf t1 slices sw (height img) = mergeVertical pf t2 slices sw (height img)"
        by (rule mergeVertical_order)
      with Some Inr show ?thesis by (simp add: onload_def Let_def S_def sw_def)
    qed
  qed
  with Some show ?thesis by (simp add: processAndDownload_def)
qed

theorem processAndDownload_load_order_witness:
  "processAndDownload samplePlatform (\<lambda>i. i) (Some sampleImage) sampleState =
   processAndDownload samplePlatform (\<lambda>i. 7 - i) (Some sampleImage) sampleState"
  using processAndDownload_load_order [of samplePlatform "\<lambda>i. i" "Some sampleImage" sampleState "\<lambda>i. 7 - i"] .

section \<open>The scaler\<close>

text \<open>
  C2, as the code has it. For a source image of width \<open>w\<close>, at least 1, and a positive
  scale factor \<open>f\<close>, let \<open>p\<close> be the product \<open>w * f\<close> as the machine computes it, the
  nearest double, and let \<open>p\<close> be below \<open>2 ^ 31\<close>, so that a canvas can have this width.
  Then step 1 produces a canvas of width \<open>\<lfloor>p\<rfloor>\<close> whose height is the height of the source:
  only the width is scaled.
\<close>

theorem scaleStep_size:
  assumes "1 \<le> width img" "0 < f"
    and "js_mul (Fin (of_nat (width img))) (Fin f) = Fin p" "p < 2 ^ 31"
  shows "width (scaleStep pf img (js_mul (Fin (of_nat (width img))) (Fin f))) = nat \<lfloor>p\<rfloor>
       \<and> height (scaleStep pf img (js_mul (Fin (of_nat (width img))) (Fin f))) = height img"
proof -
  have "0 \<le> rat_of_nat (width img) * f" using assms(2) by simp
  moreover have "round_double (rat_of_nat (width img) * f) = Fin p" using assms(3) by simp
  ultimately have "0 \<le> p" by (rule round_double_nonneg)
  then have "toDimension 300 (Fin p) = nat \<lfloor>p\<rfloor>" using assms(4) by (rule toDimension_small)
  then show ?thesis unfolding assms(3) by simp
qed

theorem scaleStep_size_witness:
  "1 \<le> width wideImage \<and> 0 < double_0_7
   \<and> js_mul (Fin (of_nat (width wideImage))) (Fin double_0_7) = Fin 7 \<and> (7::rat) < 2 ^ 31
   \<and> width (scaleStep samplePlatform wideImage (js_mul (Fin (of_nat (width wideImage))) (Fin double_0_7))) = 7
   \<and> height (scaleStep samplePlatform wideImage (js_mul (Fin (of_nat (width wideImage))) (Fin double_0_7))) = 1"
proof -
  have m: "js_mul (Fin (of_nat (width wideImage))) (Fin double_0_7) = Fin 7"
    using round_double_0_7 by (simp add: wideImage_def)
  have h: "1 \<le> width wideImage" "0 < double_0_7" "(7::rat) < 2 ^ 31"
    by (simp_all add: wideImage_def double_0_7_def)
  have "\<lfloor>7::rat\<rfloor> = 7" by simp
  with scaleStep_size [OF h(1,2) m h(3), of samplePlatform] m h show ?thesis
    by (simp add: wideImage_def del: js_mul.simps)
qed

text \<open>
  The claim as the specification words it, the floor of the product \<open>w * f\<close>, fails twice.
  The exact product of 10 and the double nearest to 0.7 lies below 7, with floor 6, but the
  canvas is 7 pixels wide. And an image of 4 pixels scaled by \<open>2 ^ 30\<close> gives a canvas
  without pixels, not one of \<open>2 ^ 32\<close> pixels.
\<close>

theorem scaleStep_size_counterexample:
  "width (scaleStep samplePlatform wideImage (js_mul (Fin (of_nat (width wideImage))) (Fin double_0_7))) = 7
   \<and> nat \<lfloor>rat_of_nat (width wideImage) * double_0_7\<rfloor> = 6
   \<and> width (scaleStep samplePlatform sampleImage (js_mul (Fin (of_nat (width sampleImage))) (Fin (2 ^ 30)))) = 0
   \<and> nat \<lfloor>rat_of_nat (width sampleImage) * 2 ^ 30\<rfloor> = 4294967296"
proof -
  have m: "js_mul (Fin (of_nat (width wideImage))) (Fin double_0_7) = Fin 7"
    using round_double_0_7 by (simp add: wideImage_def)
  have "toDimension 300 (Fin 7) = nat \<lfloor>7::rat\<rfloor>" by (rule toDimension_small) simp_all
  then have a: "width (scaleStep samplePlatform wideImage (js_mul (Fin (of_nat (width wideImage))) (Fin double_0_7))) = 7"
    unfolding m by simp
  have "\<lfloor>rat_of_nat (width wideImage) * double_0_7\<rfloor> = 6"
    by (rule floor_unique) (simp_all add: wideImage_def double_0_7_def)
  then have b: "nat \<lfloor>rat_of_nat (width wideImage) * double_0_7\<rfloor> = 6" by simp
  have "round_double (rat_of_nat 4294967296) = Fin (rat_of_nat 4294967296)"
    by (rule round_double_of_nat) simp
  then have m2: "js_mul (Fin (of_nat (width sampleImage))) (Fin (2 ^ 30)) = Fin 4294967296"
    by (simp add: sampleImage_def)
  have "toDimension 300 (Fin 4294967296) = 0" by (simp add: toDimension.simps)
  then have c: "width (scaleStep samplePlatform sampleImage (js_mul (Fin (of_nat (width sampleImage))) (Fin (2 ^ 30)))) = 0"
    unfolding m2 by simp
  have d: "nat \<lfloor>rat_of_nat (width sampleImage) * 2 ^ 30\<rfloor> = 4294967296"
    by (simp add: sampleImage_def)
  from a b c d show ?thesis by blast
qed

section \<open>The slicer\<close>



section \<open>The vertical compositor\<close>



section \<open>The horizontal repeater\<close>




section \<open>The identity parameters\<close>

text \<open>
  C7, as the code has it. With \<open>scale\<close>, \<open>numSplits\<close> and \<open>horizontalRepeat\<close> all 1, a
  source of \<open>W\<close> by \<open>H\<close> pixels (both at least 1, and \<open>W\<close> below \<open>2 ^ 31\<close>) is downloaded
  as a PNG of \<open>W\<close> by \<open>H\<close> pixels, not flipped, in which every pixel is the source pixel
  drawn on opaque white: an opaque source pixel comes out unchanged, a fully transparent
  one white, and one in between opaque, in the colour that the browser mixes.
\<close>

theorem unit_pipeline:
  assumes "1 \<le> width img" "1 \<le> height img" "width img < 2 ^ 31"
    and "field st ''scale'' = Fin 1" "field st ''numSplits'' = Fin 1"
    and "field st ''horizontalRepeat'' = Fin 1"
  shows "\<exists>out. processAndDownload pf loadTime (Some img) st = Download (PngData out)
           \<and> width out = width img \<and> height out = height img
           \<and> (\<forall>x<width img. \<forall>y<height img.
                 bitmap out x y = over (blend pf) (bitmap img x y) white
                 \<and> alpha (bitmap out x y) = 255
                 \<and> (alpha (bitmap img x y) = 255 \<longrightarrow> bitmap out x y = bitmap img x y)
                 \<and> (alpha (bitmap img x y) = 0 \<longrightarrow> bitmap out x y = white))"
proof -
  have "0 < width img" "0 < height img" using assms(1,2) by simp_all
  from onload_unit [OF this assms(3-6), of pf loadTime] obtain out where
    "onload pf loadTime img st = Download (PngData out)"
    "width out = width img" "height out = height img"
    "\<forall>x<width img. \<forall>y<height img. bitmap out x y = over (blend pf) (bitmap img x y) white"
    by blast
  then show ?thesis
    by (intro exI [of _ out])
      (simp add: processAndDownload_def over_opaque_src over_transparent_src alpha_over)
qed

theorem unit_pipeline_witness:
  "\<exists>out. processAndDownload samplePlatform (\<lambda>i. i) (Some sampleImage) unitState = Download (PngData out)
      \<and> width out = 4 \<and> height out = 2
      \<and> bitmap out 3 1 = RGBA 3 1 0 255"
proof -
  have "1 \<le> width sampleImage" "1 \<le> height sampleImage" "width sampleImage < 2 ^ 31"
    "field unitState ''scale'' = Fin 1" "field unitState ''numSplits'' = Fin 1"
    "field unitState ''horizontalRepeat'' = Fin 1"
    by (simp_all add: sampleImage_def unitState_def field_def)
  from unit_pipeline [OF this, of samplePlatform "\<lambda>i. i"] obtain out where
    run: "processAndDownload samplePlatform (\<lambda>i. i) (Some sampleImage) unitState = Download (PngData out)"
      "width out = 4" "height out = 2"
    and px: "\<forall>x<4. \<forall>y<2. alpha (bitmap sampleImage x y) = 255 \<longrightarrow> bitmap out x y = bitmap sampleImage x y"
    by (auto simp: sampleImage_def)
  have "bitmap out 3 1 = bitmap sampleImage 3 1"
    by (rule px [rule_format]) (simp_all add: sampleImage_def)
  then have "bitmap out 3 1 = RGBA 3 1 0 255" by (simp add: sampleImage_def)
  with run show ?thesis by blast
qed

text \<open>
  The claim as the specification words it, an output identical to the source, fails for
  a source that is not opaque: a transparent pixel is downloaded white.
\<close>

theorem unit_pipeline_counterexample:
  "\<exists>out. processAndDownload samplePlatform (\<lambda>i. i) (Some clearImage) unitState = Download (PngData out)
      \<and> bitmap out 0 0 \<noteq> bitmap clearImage 0 0"
proof -
  have "0 < width clearImage" "0 < height clearImage" "width clearImage < 2 ^ 31"
    "field unitState ''scale'' = Fin 1" "field unitState ''numSplits'' = Fin 1"
    "field unitState ''horizontalRepeat'' = Fin 1"
    by (simp_all add: clearImage_def unitState_def field_def)
  from onload_unit [OF this, of samplePlatform "\<lambda>i. i"] obtain out where
    run: "onload samplePlatform (\<lambda>i. i) clearImage unitState = Download (PngData out)"
    and px: "\<forall>x<width clearImage. \<forall>y<height clearImage.
               bitmap out x y = over (blend samplePlatform) (bitmap clearImage x y) white"
    by blast
  have "bitmap out 0 0 = over (blend samplePlatform) (bitmap clearImage 0 0) white"
    by (rule px [rule_format]) (simp_all add: clearImage_def)
  then have "bitmap out 0 0 = white"
    by (simp add: clearImage_def transparent_def over_def)
  moreover have "bitmap clearImage 0 0 = transparent" by (simp add: clearImage_def)
  moreover have "white \<noteq> transparent" by (simp add: white_def transparent_def)
  ultimately have "bitmap out 0 0 \<noteq> bitmap clearImage 0 0" by simp
  with run show ?thesis by (intro exI [of _ out]) (simp add: processAndDownload_def)
qed

section \<open>The degenerate slice width\<close>

text \<open>
  C1, as the code has it. When \<open>numSplits\<close> exceeds the scaled width, the product of the
  image width and a positive \<open>scale\<close> as the program computes it, \<open>sliceWidth\<close> is 0; the
  run then raises no \<open>InvalidParameter\<close> and downloads nothing, so no buffer of width 0
  either. This covers a \<open>numSplits\<close> of \<open>Infinity\<close>, which the handler stores.
\<close>

theorem zero_sliceWidth_outcome:
  assumes "js_lt (Fin 0) (field st ''scale'')"
    and "js_lt (js_mul (Fin (of_nat (width img))) (field st ''scale'')) (field st ''numSplits'')"
  shows "js_floor (js_div (js_mul (Fin (of_nat (width img))) (field st ''scale''))
           (field st ''numSplits'')) = Fin 0
       \<and> processAndDownload pf loadTime (Some img) st \<noteq> Uncaught InvalidParameter
       \<and> (\<forall>u. processAndDownload pf loadTime (Some img) st \<noteq> Download u)"
proof -
  note z = sliceWidth_zero_exceeds [OF assms]
  have "processAndDownload pf loadTime (Some img) st = onload pf loadTime img st"
    by (simp add: processAndDownload_def)
  with onload_zero_sliceWidth [OF z(2) z(1), of pf loadTime] z(1) show ?thesis by auto
qed

theorem zero_sliceWidth_outcome_witness:
  "js_lt (Fin 0) (field narrowState ''scale'')
   \<and> js_lt (js_mul (Fin (of_nat (width sampleImage))) (field narrowState ''scale'')) (field narrowState ''numSplits'')
   \<and> processAndDownload samplePlatform (\<lambda>i. i) (Some sampleImage) narrowState \<noteq> Uncaught InvalidParameter
   \<and> (\<forall>u. processAndDownload samplePlatform (\<lambda>i. i) (Some sampleImage) narrowState \<noteq> Download u)
   \<and> js_lt (Fin 0) (field endlessState ''scale'')
   \<and> js_lt (js_mul (Fin (of_nat (width sampleImage))) (field endlessState ''scale'')) (field endlessState ''numSplits'')
   \<and> (\<forall>u. processAndDownload samplePlatform (\<lambda>i. i) (Some sampleImage) endlessState \<noteq> Download u)"
proof -
  have m: "js_mul (Fin (of_nat (width sampleImage))) (Fin 2) = Fin 8"
    using js_mul_nat [of 4 2] by (simp add: sampleImage_def)
  have n: "js_lt (Fin 0) (field narrowState ''scale'')"
    "js_lt (js_mul (Fin (of_nat (width sampleImage))) (field narrowState ''scale'')) (field narrowState ''numSplits'')"
    using m by (simp_all add: narrowState_def field_def del: js_mul.simps)
  have e: "js_lt (Fin 0) (field endlessState ''scale'')"
    "js_lt (js_mul (Fin (of_nat (width sampleImage))) (field endlessState ''scale'')) (field endlessState ''numSplits'')"
    using m by (simp_all add: endlessState_def field_def del: js_mul.simps)
  from zero_sliceWidth_outcome [OF n, of samplePlatform "\<lambda>i. i"]
    zero_sliceWidth_outcome [OF e, of samplePlatform "\<lambda>i. i"] n e
  show ?thesis by blast
qed

text \<open>
  The claim as the specification words it, an \<open>InvalidParameter\<close> error, fails: with 9
  splits of a scaled width of 8 the run stalls.
\<close>

theorem zero_sliceWidth_counterexample:
  "js_lt (js_mul (Fin (of_nat (width sampleImage))) (field narrowState ''scale'')) (field narrowState ''numSplits'')
   \<and> processAndDownload samplePlatform (\<lambda>i. i) (Some sampleImage) narrowState = Stalled
   \<and> processAndDownload samplePlatform (\<lambda>i. i) (Some sampleImage) narrowState \<noteq> Uncaught InvalidParameter"
proof -
  have m: "js_mul (Fin (of_nat (width sampleImage))) (Fin 2) = Fin 8"
    using js_mul_nat [of 4 2] by (simp add: sampleImage_def)
  have sc: "field narrowState ''scale'' = Fin 2" and ns: "field narrowState ''numSplits'' = Fin 9"
    by (simp_all add: narrowState_def field_def)
  have a: "js_lt (Fin 0) (field narrowState ''scale'')"
    and b: "js_lt (js_mul (Fin (of_nat (width sampleImage))) (field narrowState ''scale'')) (field narrowState ''numSplits'')"
    unfolding sc ns m by simp_all
  note z = sliceWidth_zero_exceeds [OF a b]
  have "toDimension 300 (Fin 8) = nat \<lfloor>8::rat\<rfloor>" by (rule toDimension_small) simp_all
  then have w: "0 < width (scaleStep samplePlatform sampleImage
      (js_mul (Fin (of_nat (width sampleImage))) (field narrowState ''scale'')))"
    unfolding sc m by simp
  have h: "0 < height sampleImage" by (simp add: sampleImage_def)
  from onload_stalls [OF z(2) ns z(1) w h, of "\<lambda>i. i"]
  have "processAndDownload samplePlatform (\<lambda>i. i) (Some sampleImage) narrowState = Stalled"
    by (simp add: processAndDownload_def)
  with b show ?thesis by simp
qed

section \<open>A fractional number of splits\<close>



section \<open>The clamp on input\<close>

text \<open>
  C6. Whatever string arrives, the property named by the event holds afterwards: 1 when
  the parsed value is \<open>NaN\<close>, negative infinity or a finite value that is not positive;
  the parsed value itself otherwise. The property name plays no role, so the three
  parameters are treated alike.
\<close>

theorem handleInputChange_clamp:
  "field (handleInputChange parseFloat ev prev) (target_id ev) =
     (case parseFloat (target_value ev) of
        NaN \<Rightarrow> Fin 1
      | NegInf \<Rightarrow> Fin 1
      | Fin q \<Rightarrow> (if 0 < q then Fin q else Fin 1)
      | PosInf \<Rightarrow> PosInf)"
  by (cases "parseFloat (target_value ev)") (simp_all add: handleInputChange_def field_def)

theorem handleInputChange_clamp_witness:
  "field (handleInputChange parseFloat_sample \<lparr>target_id = ''scale'', target_value = ''abc''\<rparr> initialState) ''scale'' = Fin 1
   \<and> field (handleInputChange parseFloat_sample \<lparr>target_id = ''numSplits'', target_value = ''-3''\<rparr> initialState) ''numSplits'' = Fin 1
   \<and> field (handleInputChange parseFloat_sample \<lparr>target_id = ''numSplits'', target_value = ''0''\<rparr> initialState) ''numSplits'' = Fin 1
   \<and> field (handleInputChange parseFloat_sample \<lparr>target_id = ''horizontalRepeat'', target_value = ''4''\<rparr> initialState) ''horizontalRepeat'' = Fin 4
   \<and> field (handleInputChange parseFloat_sample \<lparr>target_id = ''scale'', target_value = ''2.5''\<rparr> initialState) ''scale'' = Fin (5 / 2)"
  using handleInputChange_clamp [of parseFloat_sample "\<lparr>target_id = ''scale'', target_value = ''abc''\<rparr>" initialState]
    handleInputChange_clamp [of parseFloat_sample "\<lparr>target_id = ''numSplits'', target_value = ''-3''\<rparr>" initialState]
    handleInputChange_clamp [of parseFloat_sample "\<lparr>target_id = ''numSplits'', target_value = ''0''\<rparr>" initialState]
    handleInputChange_clamp [of parseFloat_sample "\<lparr>target_id = ''horizontalRepeat'', target_value = ''4''\<rparr>" initialState]
    handleInputChange_clamp [of parseFloat_sample "\<lparr>target_id = ''scale'', target_value = ''2.5''\<rparr>" initialState]
  by (simp add: parseFloat_sample_def)

section \<open>The frame of the handler\<close>

text \<open>
  C9. A change event rewrites the one property named by the target's id; every other
  property of the state, so in particular the other two parameters, keeps its value.
\<close>

theorem handleInputChange_frame:
  "k \<noteq> target_id ev \<Longrightarrow> handleInputChange parseFloat ev prev k = prev k"
  by (simp add: handleInputChange_def Let_def)

theorem handleInputChange_frame_witness:
  "''numSplits'' \<noteq> target_id \<lparr>target_id = ''scale'', target_value = ''4''\<rparr>
   \<and> handleInputChange parseFloat_sample \<lparr>target_id = ''scale'', target_value = ''4''\<rparr> initialState ''numSplits'' = Some (Fin 1)
   \<and> handleInputChange parseFloat_sample \<lparr>target_id = ''scale'', target_value = ''4''\<rparr> initialState ''horizontalRepeat'' = Some (Fin 1)"
  using handleInputChange_frame [of "''numSplits''" "\<lparr>target_id = ''scale'', target_value = ''4''\<rparr>" parseFloat_sample initialState]
    handleInputChange_frame [of "''horizontalRepeat''" "\<lparr>target_id = ''scale'', target_value = ''4''\<rparr>" parseFloat_sample initialState]
  by (simp add: initialState_def)

end
